theory Spec2Isabelle
  imports Main
begin

section \<open>Exceptions of the two scripts\<close>

text \<open>
  The Python exceptions that the two scripts raise, catch or let through. Every one of
  them is a subclass of \<^verbatim>\<open>Exception\<close>. \<open>AnalysisException\<close> is what Spark raises
  when a path does not exist, when two columns of a file have the same name, or when a
  column name cannot be resolved; \<open>JavaError\<close> stands
  for the error the JDBC writer raises when the destination refuses the connection.
\<close>

datatype analysis_cause = PathDoesNotExist string | DuplicateColumns | UnresolvedColumn string

datatype exn =
    ZeroDivisionError
  | IOError
  | ValueError
  | UnboundLocalError
  | AnalysisException analysis_cause
  | JavaError

section \<open>The generator: \<^verbatim>\<open>generate_user_data.py\<close>\<close>

subsection \<open>Its world\<close>

text \<open>
  A CSV file is held as the rows handed to \<^verbatim>\<open>csv.writer.writerow\<close>, each row the
  list of its fields as text. \<open>can_open\<close> says whether \<^verbatim>\<open>open(path, mode='w')\<close>
  succeeds; \<open>console\<close> is what \<^verbatim>\<open>print\<close> has written, one entry per call.
\<close>

datatype gen_msg =
    Generated int int         \<comment> \<open>\<^verbatim>\<open>Generated {user_id}/{num_records} records...\<close>\<close>
  | CsvGenerated string int   \<comment> \<open>\<^verbatim>\<open>CSV file '{csv_filename}' generated with {num_records} records.\<close>\<close>
  | IOErrorMsg string         \<comment> \<open>\<^verbatim>\<open>IO error writing to file {csv_filename}: {e}\<close>\<close>
  | ValueErrorMsg             \<comment> \<open>\<^verbatim>\<open>Value error in data: {e}\<close>\<close>

datatype field = IntF int | TextF string

record gen_world =
  files :: "string \<rightharpoonup> field list list"
  can_open :: "string \<Rightarrow> bool"
  console :: "gen_msg list"

text \<open>
  The Faker object is a generator with a state of its own: \<open>create_fake_user_data\<close>
  draws a name, an e-mail address and a sign-up time from it, or raises.
\<close>

type_synonym 'f faker = "'f \<Rightarrow> (exn + string \<times> string \<times> string) \<times> 'f"

definition create_fake_user_data ::
  "'f faker \<Rightarrow> 'f \<Rightarrow> (exn + string \<times> string \<times> string) \<times> 'f" where
  "create_fake_user_data fake st = fake st"

subsection \<open>Python arithmetic\<close>

definition py_floordiv :: "int \<Rightarrow> int \<Rightarrow> exn + int" where
  "py_floordiv a b = (if b = 0 then Inl ZeroDivisionError else Inr (a div b))"

definition py_mod :: "int \<Rightarrow> int \<Rightarrow> exn + int" where
  "py_mod a b = (if b = 0 then Inl ZeroDivisionError else Inr (a mod b))"

subsection \<open>\<^verbatim>\<open>write_to_csv\<close>\<close>

definition header :: "field list" where
  "header = [TextF ''user_id'', TextF ''name'', TextF ''email'', TextF ''signup_date'']"

definition writerow :: "string \<Rightarrow> field list \<Rightarrow> gen_world \<Rightarrow> gen_world" where
  "writerow path r w =
     w\<lparr>files := (files w)(path \<mapsto> (case files w path of None \<Rightarrow> [r] | Some rs \<Rightarrow> rs @ [r]))\<rparr>"

definition print_msg :: "gen_msg \<Rightarrow> gen_world \<Rightarrow> gen_world" where
  "print_msg m w = w\<lparr>console := console w @ [m]\<rparr>"

text \<open>
  \<open>progress_threshold\<close> is assigned only in the branch without tqdm
  (\<^verbatim>\<open>num_records // 10\<close>); with tqdm the name stays unbound and the loop never
  reads it, since \<^verbatim>\<open>not USE_TQDM and ...\<close> stops at its first operand.
\<close>

definition progress_threshold :: "bool \<Rightarrow> int \<Rightarrow> int option" where
  "progress_threshold use_tqdm num_records =
     (if use_tqdm then None
      else case py_floordiv num_records 10 of Inr t \<Rightarrow> Some t | Inl _ \<Rightarrow> None)"

text \<open>
  The body of the \<^verbatim>\<open>for\<close> loop, over the values of \<^verbatim>\<open>range(1, num_records + 1)\<close>
  that are still to come. The result is the exception that left the loop, if any.
\<close>

fun write_records ::
  "bool \<Rightarrow> string \<Rightarrow> int \<Rightarrow> int option \<Rightarrow> 'f faker \<Rightarrow> int list \<Rightarrow> 'f \<Rightarrow> gen_world
     \<Rightarrow> exn option \<times> 'f \<times> gen_world" where
  "write_records use_tqdm path num_records thr fake [] st w = (None, st, w)"
| "write_records use_tqdm path num_records thr fake (user_id # ids) st w =
     (case (if use_tqdm then Inr w
            else case thr of
                   None \<Rightarrow> Inl UnboundLocalError
                 | Some t \<Rightarrow>
                    (case py_mod user_id t of
                       Inl e \<Rightarrow> Inl e
                     | Inr m \<Rightarrow>
                         Inr (if m = 0 then print_msg (Generated user_id num_records) w else w)))
      of Inl e \<Rightarrow> (Some e, st, w)
       | Inr w1 \<Rightarrow>
          (case create_fake_user_data fake st of
             (Inl e, st1) \<Rightarrow> (Some e, st1, w1)
           | (Inr (name, email, signup_date), st1) \<Rightarrow>
               write_records use_tqdm path num_records thr fake ids st1
                 (writerow path [IntF user_id, TextF name, TextF email, TextF signup_date] w1)))"

text \<open>
  \<^verbatim>\<open>write_to_csv\<close>: opening the file for writing empties it; the \<^verbatim>\<open>with\<close> block
  closes it however the block is left, so what was written stays. \<open>IOError\<close> and
  \<open>ValueError\<close> are caught and printed; any other exception leaves the function.
\<close>

definition write_to_csv ::
  "bool \<Rightarrow> string \<Rightarrow> int \<Rightarrow> 'f faker \<Rightarrow> 'f \<Rightarrow> gen_world \<Rightarrow> exn option \<times> 'f \<times> gen_world" where
  "write_to_csv use_tqdm csv_filename num_records fake st w =
     (if \<not> can_open w csv_filename then (None, st, print_msg (IOErrorMsg csv_filename) w)
      else
        let w1 = writerow csv_filename header (w\<lparr>files := (files w)(csv_filename \<mapsto> [])\<rparr>);
            thr = progress_threshold use_tqdm num_records
        in case write_records use_tqdm csv_filename num_records thr fake
                  [1 .. num_records] st w1 of
             (None, st2, w2) \<Rightarrow> (None, st2, print_msg (CsvGenerated csv_filename num_records) w2)
           | (Some IOError, st2, w2) \<Rightarrow> (None, st2, print_msg (IOErrorMsg csv_filename) w2)
           | (Some ValueError, st2, w2) \<Rightarrow> (None, st2, print_msg ValueErrorMsg w2)
           | (Some e, st2, w2) \<Rightarrow> (Some e, st2, w2))"

section \<open>The pipeline: \<^verbatim>\<open>etl_script.py\<close>\<close>

text \<open>
  The script is a chain of calls into PySpark. The data frame, the column expressions and
  the CSV and JDBC data sources are modelled here by what they compute with the session
  as \<^verbatim>\<open>etl_pipeline\<close> builds it: only \<^verbatim>\<open>appName\<close> and \<^verbatim>\<open>spark.jars\<close> are set, so
  every other option has its default, and a cast that cannot read its input gives null
  (\<^verbatim>\<open>spark.sql.ansi.enabled\<close> is false). Spark evaluates a frame when it is written;
  since no expression of the script can raise on a row, the model computes the rows as
  soon as the frame is built.
\<close>

subsection \<open>Regular expressions\<close>

text \<open>
  The two patterns of the script are sequences of single-character atoms, each taken
  once or with \<^verbatim>\<open>+\<close>, with optional anchors \<^verbatim>\<open>^\<close> and \<^verbatim>\<open>$\<close> and at most one capturing
  group. A pattern is held as that sequence; the flag of a piece says whether it lies
  inside the group. A character is a byte of the UTF-8 text.
\<close>

datatype citem = Single char | Range char char

datatype atom =
    Lit char                    \<comment> \<open>a literal character, also an escaped one such as \<^verbatim>\<open>\.\<close>\<close>
  | Bracket bool "citem list"   \<comment> \<open>\<^verbatim>\<open>[...]\<close>, and \<^verbatim>\<open>[^...]\<close> when the flag is set\<close>

datatype quant = Once | Plus

datatype piece = Piece atom quant bool

datatype pattern = Pattern bool "piece list" bool

fun in_item :: "citem \<Rightarrow> char \<Rightarrow> bool" where
  "in_item (Single a) c = (c = a)"
| "in_item (Range lo hi) c =
     ((of_char lo :: nat) \<le> of_char c \<and> (of_char c :: nat) \<le> of_char hi)"

fun atom_matches :: "atom \<Rightarrow> char \<Rightarrow> bool" where
  "atom_matches (Lit a) c = (c = a)"
| "atom_matches (Bracket negated items) c = (list_ex (\<lambda>i. in_item i c) items \<noteq> negated)"

definition capture :: "bool \<Rightarrow> char \<Rightarrow> string \<Rightarrow> string" where
  "capture g c cap = (if g then c # cap else cap)"

text \<open>
  \<open>run to_end ps s\<close> matches the pieces \<open>ps\<close> at the start of \<open>s\<close> the way a backtracking
  matcher does: \<^verbatim>\<open>+\<close> is greedy, it first tries to take one more character and gives
  it back only when the rest of the pattern fails. The result is the text of the group
  (empty when the pattern has none). With \<open>to_end\<close> the match must use up \<open>s\<close>; Java's
  \<^verbatim>\<open>$\<close> also matches before a final line terminator, which makes no difference to the
  one anchored pattern of the script, whose last piece \<^verbatim>\<open>[^@]+\<close> takes a line
  terminator as it takes any other character.
\<close>

fun run :: "bool \<Rightarrow> piece list \<Rightarrow> string \<Rightarrow> string option" where
  "run to_end [] s = (if to_end \<and> s \<noteq> [] then None else Some [])"
| "run to_end (Piece a q g # ps) [] = None"
| "run to_end (Piece a Once g # ps) (c # s) =
     (if atom_matches a c then map_option (capture g c) (run to_end ps s) else None)"
| "run to_end (Piece a Plus g # ps) (c # s) =
     (if atom_matches a c
      then (case run to_end (Piece a Plus g # ps) s of
              Some cap \<Rightarrow> Some (capture g c cap)
            | None \<Rightarrow> map_option (capture g c) (run to_end ps s))
      else None)"

text \<open>\<^verbatim>\<open>Matcher.find\<close>: the first position of \<open>s\<close>, from the left, where the pattern matches.\<close>

fun search :: "bool \<Rightarrow> piece list \<Rightarrow> string \<Rightarrow> string option" where
  "search to_end ps [] = run to_end ps []"
| "search to_end ps (c # s) =
     (case run to_end ps (c # s) of Some cap \<Rightarrow> Some cap | None \<Rightarrow> search to_end ps s)"

fun find_match :: "pattern \<Rightarrow> string \<Rightarrow> string option" where
  "find_match (Pattern from_start ps to_end) s =
     (if from_start then run to_end ps s else search to_end ps s)"

text \<open>The pattern \<^verbatim>\<open>^[^@]+@[^@]+\.[^@]+$\<close> of the filter.\<close>

definition email_pattern :: pattern where
  "email_pattern = Pattern True
     [Piece (Bracket True [Single CHR ''@'']) Plus False,
      Piece (Lit CHR ''@'') Once False,
      Piece (Bracket True [Single CHR ''@'']) Plus False,
      Piece (Lit CHR ''.'') Once False,
      Piece (Bracket True [Single CHR ''@'']) Plus False] True"

text \<open>The pattern \<^verbatim>\<open>@([A-Za-z0-9.-]+)\<close> of the domain column.\<close>

definition domain_class :: atom where
  "domain_class = Bracket False
     [Range CHR ''A'' CHR ''Z'', Range CHR ''a'' CHR ''z'', Range CHR ''0'' CHR ''9'',
      Single CHR ''.'', Single CHR ''-'']"

definition domain_pattern :: pattern where
  "domain_pattern = Pattern False
     [Piece (Lit CHR ''@'') Once False, Piece domain_class Plus True] False"

subsection \<open>Casts from text\<close>

text \<open>
  Spark's cast of a string to \<^verbatim>\<open>int\<close> or \<^verbatim>\<open>bigint\<close>: white space and control characters
  around the text are dropped, a sign may lead, the digits up to an optional point are
  the value, and what follows the point must be digits and is cut off. A text of any
  other form, and a value outside the range of the type, give null (here \<open>None\<close>).
\<close>

definition is_blank :: "char \<Rightarrow> bool" where
  "is_blank c \<longleftrightarrow> (of_char c :: nat) \<le> 32 \<or> (of_char c :: nat) = 127"

definition trim_all :: "string \<Rightarrow> string" where
  "trim_all s = rev (dropWhile is_blank (rev (dropWhile is_blank s)))"

definition is_digit :: "char \<Rightarrow> bool" where
  "is_digit c \<longleftrightarrow> (48 :: nat) \<le> of_char c \<and> (of_char c :: nat) \<le> 57"

definition digit_val :: "char \<Rightarrow> int" where
  "digit_val c = int (of_char c) - 48"

definition digits_val :: "string \<Rightarrow> int" where
  "digits_val s = foldl (\<lambda>a c. 10 * a + digit_val c) 0 s"

definition parse_integral :: "string \<Rightarrow> int option" where
  "parse_integral s =
     (let t = trim_all s in
      if t = [] then None
      else
        let negative = (hd t = CHR ''-'');
            signed = (negative \<or> hd t = CHR ''+'');
            body = (if signed then tl t else t);
            whole = takeWhile (\<lambda>c. c \<noteq> CHR ''.'') body;
            fraction = drop 1 (dropWhile (\<lambda>c. c \<noteq> CHR ''.'') body)
        in if signed \<and> body = [] then None
           else if list_all is_digit whole \<and> list_all is_digit fraction
           then Some (if negative then - digits_val whole else digits_val whole)
           else None)"

definition cast_int :: "string \<Rightarrow> int option" where
  "cast_int s =
     (case parse_integral s of
        None \<Rightarrow> None
      | Some v \<Rightarrow> if - (2 ^ 31) \<le> v \<and> v < 2 ^ 31 then Some v else None)"

definition cast_long :: "string \<Rightarrow> int option" where
  "cast_long s =
     (case parse_integral s of
        None \<Rightarrow> None
      | Some v \<Rightarrow> if - (2 ^ 63) \<le> v \<and> v < 2 ^ 63 then Some v else None)"

subsection \<open>Dates\<close>

text \<open>
  \<^verbatim>\<open>from_unixtime\<close> writes a count of seconds since 1970-01-01T00:00:00Z as the text
  \<^verbatim>\<open>yyyy-MM-dd HH:mm:ss\<close> in the time zone of the session, and \<^verbatim>\<open>to_date\<close> reads the
  date at the head of such a text. The time zone is held as its offset from UTC in
  seconds. \<open>civil_from_days\<close> is the conversion of \<^verbatim>\<open>java.time.LocalDate.ofEpochDay\<close>;
  Java's \<^verbatim>\<open>/\<close> rounds towards zero, HOL's \<open>div\<close> rounds down, and the two differ only
  in the one division whose dividend is negative.
\<close>

definition java_div :: "int \<Rightarrow> int \<Rightarrow> int" where
  "java_div a b = sgn a * sgn b * (\<bar>a\<bar> div \<bar>b\<bar>)"

definition days_before_year :: "int \<Rightarrow> int" where
  "days_before_year y = 365 * y + y div 4 - y div 100 + y div 400"

definition civil_from_days :: "int \<Rightarrow> int \<times> int \<times> int" where
  "civil_from_days epoch_day =
     (let zero_day0 = epoch_day + 719528 - 60;
          adjust_cycles = (if zero_day0 < 0 then java_div (zero_day0 + 1) 146097 - 1 else 0);
          adjust = adjust_cycles * 400;
          zero_day = zero_day0 - adjust_cycles * 146097;
          year_est0 = (400 * zero_day + 591) div 146097;
          doy_est0 = zero_day - days_before_year year_est0;
          year_est1 = (if doy_est0 < 0 then year_est0 - 1 else year_est0);
          doy_est = (if doy_est0 < 0 then zero_day - days_before_year year_est1 else doy_est0);
          march_month0 = (doy_est * 5 + 2) div 153;
          month = (march_month0 + 2) mod 12 + 1;
          dom = doy_est - (march_month0 * 306 + 5) div 10 + 1
      in (year_est1 + adjust + march_month0 div 10, month, dom))"

definition digit_char :: "int \<Rightarrow> char" where
  "digit_char d = char_of (nat (48 + d mod 10))"

definition pad2 :: "int \<Rightarrow> string" where
  "pad2 n = [digit_char (n div 10), digit_char n]"

definition pad4 :: "int \<Rightarrow> string" where
  "pad4 n = [digit_char (n div 1000), digit_char (n div 100), digit_char (n div 10), digit_char n]"

text \<open>
  The text is exact for the years 0001 to 9999, which hold every sign-up time the
  generator writes (between five years ago and now); outside them Java writes the year
  of the era and a sign, which the model does not follow.
\<close>

definition format_timestamp :: "int \<Rightarrow> string" where
  "format_timestamp local_seconds =
     (let (y, m, d) = civil_from_days (local_seconds div 86400);
          sec_of_day = local_seconds mod 86400
      in pad4 y @ ''-'' @ pad2 m @ ''-'' @ pad2 d @ '' '' @
         pad2 (sec_of_day div 3600) @ '':'' @ pad2 (sec_of_day mod 3600 div 60) @ '':'' @
         pad2 (sec_of_day mod 60))"

definition is_leap :: "int \<Rightarrow> bool" where
  "is_leap y \<longleftrightarrow> y mod 4 = 0 \<and> (y mod 100 \<noteq> 0 \<or> y mod 400 = 0)"

definition days_in_month :: "int \<Rightarrow> int \<Rightarrow> int" where
  "days_in_month y m =
     (if m = 2 then (if is_leap y then 29 else 28)
      else if m = 4 \<or> m = 6 \<or> m = 9 \<or> m = 11 then 30 else 31)"

text \<open>
  Spark's cast of a string to a date reads \<^verbatim>\<open>yyyy-[m]m-[d]d\<close>, followed by nothing, or by
  a blank or \<^verbatim>\<open>T\<close> and any text; a text of another form, or one that names no day of
  the calendar, gives null.
\<close>

definition parse_date :: "string \<Rightarrow> (int \<times> int \<times> int) option" where
  "parse_date s =
     (let t = trim_all s;
          ys = takeWhile is_digit t;
          r1 = dropWhile is_digit t;
          ms = takeWhile is_digit (drop 1 r1);
          r2 = dropWhile is_digit (drop 1 r1);
          ds = takeWhile is_digit (drop 1 r2);
          r3 = dropWhile is_digit (drop 1 r2);
          y = digits_val ys; m = digits_val ms; d = digits_val ds
      in if length ys = 4 \<and> take 1 r1 = ''-'' \<and> length ms \<in> {1, 2} \<and> take 1 r2 = ''-'' \<and>
            length ds \<in> {1, 2} \<and> (r3 = [] \<or> hd r3 = CHR '' '' \<or> hd r3 = CHR ''T'') \<and>
            1 \<le> m \<and> m \<le> 12 \<and> 1 \<le> d \<and> d \<le> days_in_month y m
         then Some (y, m, d) else None)"

subsection \<open>Cells, rows and data frames\<close>

text \<open>
  A row holds its cells by column name, in the order of the columns. A data frame knows
  the time zone of the session that made it. The cells of a frame read from CSV are
  text or null; the other kinds come from the column expressions.
\<close>

datatype cell = Null | StrV string | BoolV bool | IntV int | DateV int int int

type_synonym row = "(string \<times> cell) list"

record dataframe =
  time_zone :: int
  columns :: "string list"
  rows :: "row list"

text \<open>
  The session is not case sensitive: a column is referred to by its name with the case
  of the letters ignored. Letter case is that of ASCII.
\<close>

definition lower_char :: "char \<Rightarrow> char" where
  "lower_char c =
     (if (65 :: nat) \<le> of_char c \<and> (of_char c :: nat) \<le> 90
      then char_of ((of_char c :: nat) + 32) else c)"

definition lower :: "string \<Rightarrow> string" where
  "lower s = map lower_char s"

definition cell_of :: "row \<Rightarrow> string \<Rightarrow> cell" where
  "cell_of r name =
     (case map_of (map (\<lambda>(k, c). (lower k, c)) r) (lower name) of
        Some c \<Rightarrow> c
      | None \<Rightarrow> Null)"

fun put :: "string \<Rightarrow> cell \<Rightarrow> row \<Rightarrow> row" where
  "put name v [] = [(name, v)]"
| "put name v ((k, c) # r) =
     (if lower k = lower name then (name, v) # r else (k, c) # put name v r)"

subsection \<open>Column expressions\<close>

text \<open>
  The expressions the script builds with \<^verbatim>\<open>col\<close>, \<^verbatim>\<open>rlike\<close>, \<^verbatim>\<open>from_unixtime\<close>,
  \<^verbatim>\<open>to_date\<close>, \<^verbatim>\<open>regexp_extract\<close> (with group index 1, the one group of a pattern) and
  \<^verbatim>\<open>cast("int")\<close>. Every function gives null on a null input. Each expression of the
  script reads a column that is still text when it is read, so the last case of each
  \<open>case\<close> below is never reached from \<open>extract_data\<close>.
\<close>

datatype expr =
    Col string
  | RLike expr pattern
  | FromUnixtime expr
  | ToDate expr
  | RegexpExtract expr pattern
  | CastInt expr

fun refs :: "expr \<Rightarrow> string list" where
  "refs (Col name) = [name]"
| "refs (RLike e p) = refs e"
| "refs (FromUnixtime e) = refs e"
| "refs (ToDate e) = refs e"
| "refs (RegexpExtract e p) = refs e"
| "refs (CastInt e) = refs e"

definition rlike :: "pattern \<Rightarrow> cell \<Rightarrow> cell" where
  "rlike p c = (case c of StrV s \<Rightarrow> BoolV (find_match p s \<noteq> None) | _ \<Rightarrow> Null)"

definition from_unixtime :: "int \<Rightarrow> cell \<Rightarrow> cell" where
  "from_unixtime tz c =
     (case c of
        StrV s \<Rightarrow> (case cast_long s of
                     Some n \<Rightarrow> StrV (format_timestamp (n + tz))
                   | None \<Rightarrow> Null)
      | _ \<Rightarrow> Null)"

definition to_date :: "cell \<Rightarrow> cell" where
  "to_date c =
     (case c of
        StrV s \<Rightarrow> (case parse_date s of Some (y, m, d) \<Rightarrow> DateV y m d | None \<Rightarrow> Null)
      | _ \<Rightarrow> Null)"

definition regexp_extract :: "pattern \<Rightarrow> cell \<Rightarrow> cell" where
  "regexp_extract p c =
     (case c of
        StrV s \<Rightarrow> StrV (case find_match p s of Some cap \<Rightarrow> cap | None \<Rightarrow> [])
      | _ \<Rightarrow> Null)"

definition cast_int_cell :: "cell \<Rightarrow> cell" where
  "cast_int_cell c =
     (case c of
        StrV s \<Rightarrow> (case cast_int s of Some n \<Rightarrow> IntV n | None \<Rightarrow> Null)
      | _ \<Rightarrow> Null)"

fun eval :: "int \<Rightarrow> row \<Rightarrow> expr \<Rightarrow> cell" where
  "eval tz r (Col name) = cell_of r name"
| "eval tz r (RLike e p) = rlike p (eval tz r e)"
| "eval tz r (FromUnixtime e) = from_unixtime tz (eval tz r e)"
| "eval tz r (ToDate e) = to_date (eval tz r e)"
| "eval tz r (RegexpExtract e p) = regexp_extract p (eval tz r e)"
| "eval tz r (CastInt e) = cast_int_cell (eval tz r e)"

subsection \<open>Operations on a data frame\<close>

text \<open>
  A column name that the frame does not have is found when the operation is called, and
  raises \<^verbatim>\<open>AnalysisException\<close>. \<^verbatim>\<open>filter\<close> keeps the rows whose condition is true, so a
  row whose condition is null goes. \<^verbatim>\<open>withColumn\<close> replaces the column of that name,
  which then has the name as the call writes it, or adds the column after the last one.
\<close>

definition has_column :: "dataframe \<Rightarrow> string \<Rightarrow> bool" where
  "has_column df name \<longleftrightarrow> lower name \<in> set (map lower (columns df))"

definition unresolved :: "expr \<Rightarrow> dataframe \<Rightarrow> string option" where
  "unresolved e df = List.find (\<lambda>name. \<not> has_column df name) (refs e)"

definition df_filter :: "expr \<Rightarrow> dataframe \<Rightarrow> exn + dataframe" where
  "df_filter condition df =
     (case unresolved condition df of
        Some name \<Rightarrow> Inl (AnalysisException (UnresolvedColumn name))
      | None \<Rightarrow>
          Inr (df\<lparr>rows := filter (\<lambda>r. eval (time_zone df) r condition = BoolV True) (rows df)\<rparr>))"

definition withColumn :: "string \<Rightarrow> expr \<Rightarrow> dataframe \<Rightarrow> exn + dataframe" where
  "withColumn name e df =
     (case unresolved e df of
        Some missing \<Rightarrow> Inl (AnalysisException (UnresolvedColumn missing))
      | None \<Rightarrow>
          Inr (df\<lparr>columns := (if has_column df name
                               then map (\<lambda>c. if lower c = lower name then name else c) (columns df)
                               else columns df @ [name]),
                  rows := map (\<lambda>r. put name (eval (time_zone df) r e) r) (rows df)\<rparr>))"

subsection \<open>The world of a run\<close>

text \<open>
  A CSV file is held as its records, each the list of its fields as text, the header
  first; blank lines are no records. The destination is one database: it takes a
  connection when it is up and the URL, the user and the password are its own, and it
  holds its tables by name. Constraints that the destination itself may put on a row
  (types, keys) are outside the script and outside the model: a connected destination
  takes every row. \<open>secret_files\<close> are the text files read whole.
\<close>

datatype log_level = INFO | ERROR

datatype log_msg =
    ExtractOk string            \<comment> \<open>\<^verbatim>\<open>Successfully loaded {input_file} into a DataFrame.\<close>\<close>
  | ExtractFailed string exn    \<comment> \<open>\<^verbatim>\<open>Error loading data from {input_file}: {e}\<close>\<close>
  | TransformFailed exn         \<comment> \<open>\<^verbatim>\<open>Error during data transformation: {e}\<close>\<close>
  | LoadOk "string option"      \<comment> \<open>\<^verbatim>\<open>Successfully loaded data into {table_name}.\<close>\<close>
  | LoadFailed exn              \<comment> \<open>\<^verbatim>\<open>Error loading data to PostgreSQL: {e}\<close>\<close>
  | EtlFailed exn               \<comment> \<open>\<^verbatim>\<open>ETL process failed: {e}\<close>\<close>

datatype print_msg =
    SecretNotFound                              \<comment> \<open>\<^verbatim>\<open>Error: PostgreSQL password secret not found.\<close>\<close>
  | Connecting "string option" "string option"  \<comment> \<open>\<^verbatim>\<open>Connecting to DB {POSTGRES_TABLE} as {POSTGRES_USER}\<close>\<close>
  | Completed                                   \<comment> \<open>\<^verbatim>\<open>ETL process completed successfully.\<close>\<close>
  | Traceback                                   \<comment> \<open>the interpreter's report of an uncaught exception\<close>

record database =
  db_up :: bool
  db_url :: string
  db_user :: string
  db_password :: string
  tables :: "string \<rightharpoonup> row list"

record world =
  csv_files :: "string \<rightharpoonup> string list list"
  secret_files :: "string \<rightharpoonup> string"
  jvm_time_zone :: int
  session_active :: bool
  db :: database
  logged :: "(log_level \<times> log_msg) list"
  printed :: "print_msg list"

definition logging_info :: "log_msg \<Rightarrow> world \<Rightarrow> world" where
  "logging_info m w = w\<lparr>logged := logged w @ [(INFO, m)]\<rparr>"

definition logging_error :: "log_msg \<Rightarrow> world \<Rightarrow> world" where
  "logging_error m w = w\<lparr>logged := logged w @ [(ERROR, m)]\<rparr>"

definition print_line :: "print_msg \<Rightarrow> world \<Rightarrow> world" where
  "print_line m w = w\<lparr>printed := printed w @ [m]\<rparr>"

subsection \<open>Reading CSV\<close>

text \<open>
  \<^verbatim>\<open>spark.read.csv(input_file, header=True, inferSchema=False)\<close>: the first record names
  the columns, whatever it holds, and every column is text. Spark makes the names safe:
  an empty name becomes \<^verbatim>\<open>_c\<close> and the index of the column, and a name that the header
  holds more than once, letter case ignored (the session is not case sensitive), gets
  the index of the column after it. A file with no record gives a frame with no column.
  An empty field is null; a record shorter than the header is filled with nulls, and the
  fields of a longer one beyond the header are dropped.
\<close>

fun show_nat :: "nat \<Rightarrow> string" where
  "show_nat n =
     (if n < 10 then [char_of (48 + n)]
      else show_nat (n div 10) @ [char_of (48 + n mod 10)])"

declare show_nat.simps [simp del]

definition duplicated :: "string list \<Rightarrow> string \<Rightarrow> bool" where
  "duplicated names name \<longleftrightarrow> 2 \<le> count_list (map lower names) (lower name)"

definition safe_name :: "string list \<Rightarrow> string \<times> nat \<Rightarrow> string" where
  "safe_name names p =
     (case p of (name, index) \<Rightarrow>
        if name = [] then ''_c'' @ show_nat index
        else if duplicated names name then name @ show_nat index
        else name)"

definition make_safe_header :: "string list \<Rightarrow> string list" where
  "make_safe_header names = map (safe_name names) (zip names [0 ..< length names])"

definition text_cell :: "string \<Rightarrow> cell" where
  "text_cell s = (if s = [] then Null else StrV s)"

definition fit :: "nat \<Rightarrow> string list \<Rightarrow> string list" where
  "fit n vals = take n (vals @ replicate (n - length vals) [])"

definition read_csv :: "int \<Rightarrow> string list list \<Rightarrow> dataframe" where
  "read_csv tz records =
     (case records of
        [] \<Rightarrow> \<lparr>time_zone = tz, columns = [], rows = []\<rparr>
      | names # body \<Rightarrow>
          \<lparr>time_zone = tz, columns = make_safe_header names,
           rows = map (\<lambda>vals. zip (make_safe_header names)
                                (map text_cell (fit (length names) vals))) body\<rparr>)"

subsection \<open>The stages\<close>

text \<open>
  \<^verbatim>\<open>extract_data\<close>: the read raises when the path names no file, and when two columns
  of the frame would have the same name, letter case ignored, which is what remains of
  a header such as \<^verbatim>\<open>a,a,a0\<close> once its names are made safe; the handler logs the error
  and raises it again. Nothing in the function compares the column names with the names
  the script expects.
\<close>

definition extract_data :: "string \<Rightarrow> world \<Rightarrow> (exn + dataframe) \<times> world" where
  "extract_data input_file w =
     (case csv_files w input_file of
        None \<Rightarrow>
          (Inl (AnalysisException (PathDoesNotExist input_file)),
           logging_error (ExtractFailed input_file (AnalysisException (PathDoesNotExist input_file))) w)
      | Some records \<Rightarrow>
          if distinct (map lower (columns (read_csv (jvm_time_zone w) records)))
          then (Inr (read_csv (jvm_time_zone w) records), logging_info (ExtractOk input_file) w)
          else (Inl (AnalysisException DuplicateColumns),
                logging_error (ExtractFailed input_file (AnalysisException DuplicateColumns)) w))"

text \<open>
  The first call of the chain in \<^verbatim>\<open>transform_data\<close>,
  \<^verbatim>\<open>df.filter(col("email").rlike(r"^[^@]+@[^@]+\.[^@]+$"))\<close>.
\<close>

definition filter_emails :: "dataframe \<Rightarrow> exn + dataframe" where
  "filter_emails df = df_filter (RLike (Col ''email'') email_pattern) df"

text \<open>
  \<^verbatim>\<open>transform_data\<close>: the filter and the three \<^verbatim>\<open>withColumn\<close> calls, in the order of
  the source. Only \<^verbatim>\<open>AnalysisException\<close> is caught, logged and raised again.
\<close>

definition transform_chain :: "dataframe \<Rightarrow> exn + dataframe" where
  "transform_chain df =
     (case filter_emails df of
        Inl e \<Rightarrow> Inl e
      | Inr d1 \<Rightarrow>
         (case withColumn ''signup_date'' (ToDate (FromUnixtime (Col ''signup_date''))) d1 of
            Inl e \<Rightarrow> Inl e
          | Inr d2 \<Rightarrow>
             (case withColumn ''domain'' (RegexpExtract (Col ''email'') domain_pattern) d2 of
                Inl e \<Rightarrow> Inl e
              | Inr d3 \<Rightarrow> withColumn ''user_id'' (CastInt (Col ''user_id'')) d3)))"

definition transform_data :: "dataframe \<Rightarrow> world \<Rightarrow> (exn + dataframe) \<times> world" where
  "transform_data df w =
     (case transform_chain df of
        Inl (AnalysisException c) \<Rightarrow>
          (Inl (AnalysisException c), logging_error (TransformFailed (AnalysisException c)) w)
      | Inl e \<Rightarrow> (Inl e, w)
      | Inr d \<Rightarrow> (Inr d, w))"

text \<open>
  \<^verbatim>\<open>load_data_to_postgresql\<close>: the JDBC writer in mode \<^verbatim>\<open>append\<close> adds the rows of the
  frame to the table, which it makes when the database has none of that name. The
  parameters come from \<^verbatim>\<open>os.getenv\<close> and may be \<^verbatim>\<open>None\<close>. A refused connection raises
  before any row is sent.
\<close>

definition jdbc_accepts ::
  "database \<Rightarrow> string option \<Rightarrow> string option \<Rightarrow> string option \<Rightarrow> string \<Rightarrow> bool" where
  "jdbc_accepts d jdbc_url table_name username password \<longleftrightarrow>
     db_up d \<and> jdbc_url = Some (db_url d) \<and> table_name \<noteq> None \<and>
     username = Some (db_user d) \<and> password = db_password d"

definition append_rows :: "string \<Rightarrow> row list \<Rightarrow> database \<Rightarrow> database" where
  "append_rows table_name new d =
     d\<lparr>tables := (tables d)(table_name \<mapsto>
          (case tables d table_name of None \<Rightarrow> new | Some old \<Rightarrow> old @ new))\<rparr>"

definition load_data_to_postgresql ::
  "dataframe \<Rightarrow> string option \<Rightarrow> string option \<Rightarrow> string option \<Rightarrow> string \<Rightarrow> world
     \<Rightarrow> exn option \<times> world" where
  "load_data_to_postgresql df jdbc_url table_name username password w =
     (case table_name of
        Some t \<Rightarrow>
          if jdbc_accepts (db w) jdbc_url table_name username password
          then (None, logging_info (LoadOk table_name) (w\<lparr>db := append_rows t (rows df) (db w)\<rparr>))
          else (Some JavaError, logging_error (LoadFailed JavaError) w)
      | None \<Rightarrow> (Some JavaError, logging_error (LoadFailed JavaError) w))"

subsection \<open>The orchestrator\<close>

text \<open>
  \<^verbatim>\<open>etl_pipeline\<close>: \<^verbatim>\<open>getOrCreate\<close> starts the session; an exception of a stage leaves
  the function at once, as the source has no handler there; \<^verbatim>\<open>spark.stop()\<close> is the
  last statement of the function.
\<close>

definition etl_pipeline ::
  "string \<Rightarrow> string option \<Rightarrow> string option \<Rightarrow> string option \<Rightarrow> string \<Rightarrow> world
     \<Rightarrow> exn option \<times> world" where
  "etl_pipeline input_file jdbc_url table_name username password w =
     (case extract_data input_file (w\<lparr>session_active := True\<rparr>) of
        (Inl e, w1) \<Rightarrow> (Some e, w1)
      | (Inr df, w1) \<Rightarrow>
         (case transform_data df w1 of
            (Inl e, w2) \<Rightarrow> (Some e, w2)
          | (Inr df', w2) \<Rightarrow>
             (case load_data_to_postgresql df' jdbc_url table_name username password w2 of
                (Some e, w3) \<Rightarrow> (Some e, w3)
              | (None, w3) \<Rightarrow> (None, (print_line Completed w3)\<lparr>session_active := False\<rparr>))))"

subsection \<open>The script\<close>

text \<open>
  \<^verbatim>\<open>get_postgres_password\<close> reads the secret file and strips white space (here the
  ASCII white space of \<^verbatim>\<open>str.strip\<close>) from both ends; a missing file prints a message and calls \<^verbatim>\<open>exit(1)\<close>; a path that is
  \<^verbatim>\<open>None\<close> makes \<^verbatim>\<open>open\<close> raise \<^verbatim>\<open>TypeError\<close>, which nothing catches, and the
  interpreter ends with status 1. The left result is the status the process ends with.
\<close>

definition py_space :: "char \<Rightarrow> bool" where
  "py_space c \<longleftrightarrow> (let n = (of_char c :: nat) in (9 \<le> n \<and> n \<le> 13) \<or> (28 \<le> n \<and> n \<le> 32))"

definition py_strip :: "string \<Rightarrow> string" where
  "py_strip s = rev (dropWhile py_space (rev (dropWhile py_space s)))"

definition get_postgres_password :: "string option \<Rightarrow> world \<Rightarrow> (nat + string) \<times> world" where
  "get_postgres_password secret_path w =
     (case secret_path of
        None \<Rightarrow> (Inl 1, print_line Traceback w)
      | Some p \<Rightarrow>
         (case secret_files w p of
            None \<Rightarrow> (Inl 1, print_line SecretNotFound w)
          | Some text \<Rightarrow> (Inr (py_strip text), w)))"

record environment =
  JDBC_URL :: "string option"
  POSTGRES_USER :: "string option"
  POSTGRES_TABLE :: "string option"
  SECRET_POSTGRES_PASSWORD_PATH :: "string option"

text \<open>
  The body under \<^verbatim>\<open>if __name__ == "__main__"\<close>, with the environment as it is after
  \<^verbatim>\<open>load_dotenv()\<close>. The handler around \<^verbatim>\<open>etl_pipeline\<close> logs the exception; the script
  has no statement after it, so the process ends with status 0 on either path.
\<close>

definition main :: "environment \<Rightarrow> world \<Rightarrow> nat \<times> world" where
  "main env w =
     (case get_postgres_password (SECRET_POSTGRES_PASSWORD_PATH env) w of
        (Inl status, w1) \<Rightarrow> (status, w1)
      | (Inr password, w1) \<Rightarrow>
         (case etl_pipeline ''data.csv'' (JDBC_URL env) (POSTGRES_TABLE env) (POSTGRES_USER env)
                 password (print_line (Connecting (POSTGRES_TABLE env) (POSTGRES_USER env)) w1) of
            (Some e, w2) \<Rightarrow> (0, logging_error (EtlFailed e) w2)
          | (None, w2) \<Rightarrow> (0, w2)))"

text \<open>The rows a table of the database holds; none when it has no table of that name.\<close>

definition existing :: "database \<Rightarrow> string \<Rightarrow> row list" where
  "existing d table_name = (case tables d table_name of None \<Rightarrow> [] | Some old \<Rightarrow> old)"

section \<open>The specification's reading of the two patterns\<close>

text \<open>
  The shape rule in the specification's words: at least one character that is not
  \<^verbatim>\<open>@\<close>, an \<^verbatim>\<open>@\<close>, at least one character that is not \<^verbatim>\<open>@\<close>, a dot, and at least one
  more character that is not \<^verbatim>\<open>@\<close>.
\<close>

definition spec_email_shape :: "string \<Rightarrow> bool" where
  "spec_email_shape s \<longleftrightarrow>
     (\<exists>a b c. s = a @ ''@'' @ b @ ''.'' @ c \<and> a \<noteq> [] \<and> b \<noteq> [] \<and> c \<noteq> [] \<and>
        CHR ''@'' \<notin> set a \<and> CHR ''@'' \<notin> set b \<and> CHR ''@'' \<notin> set c)"

text \<open>
  The domain in the specification's words: what follows the \<^verbatim>\<open>@\<close>, as far as it is
  made of letters, digits, dots and hyphens.
\<close>

definition spec_domain_char :: "char \<Rightarrow> bool" where
  "spec_domain_char c \<longleftrightarrow>
     ((65 :: nat) \<le> of_char c \<and> (of_char c :: nat) \<le> 90) \<or>
     ((97 :: nat) \<le> of_char c \<and> (of_char c :: nat) \<le> 122) \<or>
     ((48 :: nat) \<le> of_char c \<and> (of_char c :: nat) \<le> 57) \<or>
     c = CHR ''.'' \<or> c = CHR ''-''"

definition after_at :: "string \<Rightarrow> string" where
  "after_at s = drop 1 (dropWhile (\<lambda>c. c \<noteq> CHR ''@'') s)"

definition spec_domain :: "string \<Rightarrow> string" where
  "spec_domain s = takeWhile spec_domain_char (after_at s)"

section \<open>The transformation seen on one row\<close>

text \<open>
  What the three \<^verbatim>\<open>withColumn\<close> calls of \<^verbatim>\<open>transform_data\<close> make of one row, used to
  state how the rows of the result relate to the rows that passed the filter.
\<close>

definition transform_row :: "int \<Rightarrow> row \<Rightarrow> row" where
  "transform_row tz r =
     put ''user_id'' (cast_int_cell (cell_of r ''user_id''))
       (put ''domain'' (regexp_extract domain_pattern (cell_of r ''email''))
          (put ''signup_date'' (to_date (from_unixtime tz (cell_of r ''signup_date''))) r))"

section \<open>The specification's reading of the cast\<close>

text \<open>
  The texts the cast to an integer reads, in words: blanks, then an optional sign, then
  digits, then optionally a point and more digits, then blanks, with at least a digit or
  the point present. \<open>whole\<close> are the digits before the point and \<open>negative\<close> says
  whether the sign is \<^verbatim>\<open>-\<close>.
\<close>

definition spec_number_text :: "string \<Rightarrow> bool \<Rightarrow> string \<Rightarrow> bool" where
  "spec_number_text s negative whole \<longleftrightarrow>
     (\<exists>pre sign frac post.
        s = pre @ sign @ whole @ frac @ post \<and>
        list_all is_blank pre \<and> list_all is_blank post \<and>
        (sign = [] \<and> \<not> negative \<or> sign = ''+'' \<and> \<not> negative \<or> sign = ''-'' \<and> negative) \<and>
        list_all is_digit whole \<and>
        (frac = [] \<or> (\<exists>digits. frac = CHR ''.'' # digits \<and> list_all is_digit digits)) \<and>
        whole @ frac \<noteq> [])"

text \<open>
  The integer such a text stands for, when it lies in the range of a 32-bit signed
  integer: what follows the point is cut off.
\<close>

definition spec_int_of_text :: "string \<Rightarrow> int \<Rightarrow> bool" where
  "spec_int_of_text s v \<longleftrightarrow>
     (\<exists>negative whole.
        spec_number_text s negative whole \<and>
        v = (if negative then - digits_val whole else digits_val whole) \<and>
        - (2 ^ 31) \<le> v \<and> v < 2 ^ 31)"

section \<open>Sample inputs\<close>

text \<open>
  A file of five records, the second and the fourth with a malformed e-mail address, a
  destination that takes the connection, and the environment that goes with it.
\<close>

definition sample_file :: "string list list" where
  "sample_file =
     [[''user_id'', ''name'', ''email'', ''signup_date''],
      [''42'', ''Alice'', ''alice@sub.example.com'', ''1700000000''],
      [''2'', ''Bob'', ''bob.example.com'', ''1700000001''],
      [''3'', ''Cy'', ''cy@mail.example.org'', ''1600000000.5''],
      [''4'', ''Di'', ''di@@example.com'', ''1700000003''],
      [''5'', ''Ed'', ''ed@example.io'', ''1650000000'']]"

definition sample_db :: database where
  "sample_db =
     \<lparr>db_up = True, db_url = ''jdbc:postgresql://db:5432/etl'', db_user = ''etl'',
      db_password = ''s3cret'', tables = Map.empty\<rparr>"

definition sample_world :: world where
  "sample_world =
     \<lparr>csv_files = [''data.csv'' \<mapsto> sample_file],
      secret_files = [''/run/secrets/postgres_password'' \<mapsto> ''s3cret''],
      jvm_time_zone = 0, session_active = False, db = sample_db, logged = [], printed = []\<rparr>"

definition sample_env :: environment where
  "sample_env =
     \<lparr>JDBC_URL = Some ''jdbc:postgresql://db:5432/etl'', POSTGRES_USER = Some ''etl'',
      POSTGRES_TABLE = Some ''users'',
      SECRET_POSTGRES_PASSWORD_PATH = Some ''/run/secrets/postgres_password''\<rparr>"

definition sample_frame :: dataframe where
  "sample_frame = read_csv 0 sample_file"

section \<open>Properties of the generator\<close>

lemma upto_from_one: "1 \<le> n \<Longrightarrow> [1 .. n] = 1 # [2 .. n]"
  by (simp add: upto_rec1)

lemma progress_threshold_small:
  "0 \<le> n \<Longrightarrow> n < 10 \<Longrightarrow> progress_threshold False n = Some 0"
  by (simp add: progress_threshold_def py_floordiv_def)

text \<open>
  Claim C10. Without tqdm and for a record count \<open>n\<close> with \<open>1 \<le> n < 10\<close>, the progress
  threshold is \<open>n // 10 = 0\<close>, the first pass of the loop computes \<open>1 % 0\<close> and
  \<open>ZeroDivisionError\<close> leaves \<open>write_to_csv\<close> (it is neither \<open>IOError\<close> nor
  \<open>ValueError\<close>); the file then holds the header row and no data record, the generator
  was never asked for a record, and nothing was printed.
\<close>

theorem write_to_csv_small_count:
  assumes "1 \<le> n" and "n < 10" and "can_open w path"
  shows "progress_threshold False n = Some 0 \<and>
         py_mod 1 0 = Inl ZeroDivisionError \<and>
         (\<exists>w'. write_to_csv False path n fake st w = (Some ZeroDivisionError, st, w') \<and>
               files w' path = Some [header] \<and>
               console w' = console w)"
proof -
  have thr: "progress_threshold False n = Some 0"
    using assms by (simp add: progress_threshold_small)
  have ids: "[1 .. n] = 1 # [2 .. n]"
    using assms by (simp add: upto_from_one)
  have loop: "write_records False path n (Some 0) fake [1 .. n] st w0 = (Some ZeroDivisionError, st, w0)"
    for w0 :: gen_world
    by (simp add: ids py_mod_def)
  show ?thesis
    using assms thr by (simp add: write_to_csv_def loop py_mod_def writerow_def)
qed

theorem write_to_csv_small_count_witness:
  "progress_threshold False 3 = Some 0 \<and>
   (\<exists>w'. write_to_csv False ''data.csv'' 3 (\<lambda>k::nat. (Inr (''n'', ''e@x.org'', ''1.5''), Suc k)) 0
            \<lparr>files = Map.empty, can_open = (\<lambda>_. True), console = []\<rparr>
          = (Some ZeroDivisionError, 0, w') \<and>
         files w' ''data.csv'' = Some [header])"
  using write_to_csv_small_count [of 3 "\<lparr>files = Map.empty, can_open = (\<lambda>_. True), console = []\<rparr>"
      "''data.csv''" "\<lambda>k::nat. (Inr (''n'', ''e@x.org'', ''1.5''), Suc k)" 0]
  by auto

section \<open>The matcher on the two patterns\<close>

subsection \<open>What a piece accepts\<close>

lemma run_Plus_iff:
  "run e (Piece a Plus g # ps) s \<noteq> None \<longleftrightarrow>
     (\<exists>u v. s = u @ v \<and> u \<noteq> [] \<and> (\<forall>c\<in>set u. atom_matches a c) \<and> run e ps v \<noteq> None)"
proof
  show "run e (Piece a Plus g # ps) s \<noteq> None \<Longrightarrow>
     \<exists>u v. s = u @ v \<and> u \<noteq> [] \<and> (\<forall>c\<in>set u. atom_matches a c) \<and> run e ps v \<noteq> None"
  proof (induction s)
    case Nil
    then show ?case by simp
  next
    case (Cons c t)
    then have m: "atom_matches a c" by (auto split: if_splits)
    show ?case
    proof (cases "run e (Piece a Plus g # ps) t")
      case None
      with Cons.prems m have "run e ps t \<noteq> None" by auto
      with m have "c # t = [c] @ t \<and> [c] \<noteq> [] \<and> (\<forall>x\<in>set [c]. atom_matches a x) \<and>
          run e ps t \<noteq> None"
        by simp
      then show ?thesis by blast
    next
      case (Some cap)
      with Cons.IH obtain u v where "t = u @ v" "u \<noteq> []" "\<forall>x\<in>set u. atom_matches a x"
          "run e ps v \<noteq> None"
        by auto
      with m have "c # t = (c # u) @ v \<and> c # u \<noteq> [] \<and> (\<forall>x\<in>set (c # u). atom_matches a x) \<and>
          run e ps v \<noteq> None"
        by simp
      then show ?thesis by blast
    qed
  qed
next
  assume "\<exists>u v. s = u @ v \<and> u \<noteq> [] \<and> (\<forall>c\<in>set u. atom_matches a c) \<and> run e ps v \<noteq> None"
  then obtain u v where s: "s = u @ v" and u: "u \<noteq> []" "\<forall>c\<in>set u. atom_matches a c"
    and v: "run e ps v \<noteq> None" by blast
  from u v have "run e (Piece a Plus g # ps) (u @ v) \<noteq> None"
  proof (induction u)
    case Nil
    then show ?case by simp
  next
    case (Cons c u)
    show ?case
    proof (cases "u = []")
      case True
      with Cons.prems show ?thesis by (auto split: option.splits)
    next
      case False
      with Cons have "run e (Piece a Plus g # ps) (u @ v) \<noteq> None" by simp
      with Cons.prems show ?thesis by (auto split: option.splits)
    qed
  qed
  with s show "run e (Piece a Plus g # ps) s \<noteq> None" by simp
qed

lemma run_PlusE:
  assumes "run e (Piece a Plus g # ps) s \<noteq> None"
  obtains u v where "s = u @ v" and "u \<noteq> []" and "\<forall>c\<in>set u. atom_matches a c"
    and "run e ps v \<noteq> None"
proof -
  from assms have "\<exists>u v. s = u @ v \<and> u \<noteq> [] \<and> (\<forall>c\<in>set u. atom_matches a c) \<and>
      run e ps v \<noteq> None"
    by (simp only: run_Plus_iff)
  then show thesis using that by (elim exE conjE)
qed

lemma run_PlusI:
  assumes "u \<noteq> []" and "\<forall>c\<in>set u. atom_matches a c" and "run e ps v \<noteq> None"
  shows "run e (Piece a Plus g # ps) (u @ v) \<noteq> None"
proof -
  have "\<exists>u' v'. u @ v = u' @ v' \<and> u' \<noteq> [] \<and> (\<forall>c\<in>set u'. atom_matches a c) \<and>
      run e ps v' \<noteq> None"
    using assms by (intro exI[of _ u] exI[of _ v]) simp
  then show ?thesis by (simp only: run_Plus_iff)
qed

lemma run_OnceE:
  assumes "run e (Piece (Lit x) Once g # ps) s \<noteq> None"
  obtains v where "s = x # v" and "run e ps v \<noteq> None"
  using assms by (cases s) (auto split: if_splits)

lemma run_OnceI:
  assumes "run e ps v \<noteq> None"
  shows "run e (Piece (Lit x) Once g # ps) (x # v) \<noteq> None"
  using assms by auto

lemma not_at_iff: "atom_matches (Bracket True [Single CHR ''@'']) c \<longleftrightarrow> c \<noteq> CHR ''@''"
  by simp

subsection \<open>The filter's pattern accepts the specification's shape, and nothing else\<close>

lemma find_email_pattern:
  "find_match email_pattern s \<noteq> None \<longleftrightarrow> spec_email_shape s"
proof
  assume found: "find_match email_pattern s \<noteq> None"
  have r0: "run True [Piece (Bracket True [Single CHR ''@'']) Plus False,
      Piece (Lit CHR ''@'') Once False,
      Piece (Bracket True [Single CHR ''@'']) Plus False,
      Piece (Lit CHR ''.'') Once False,
      Piece (Bracket True [Single CHR ''@'']) Plus False] s \<noteq> None"
    using found unfolding email_pattern_def find_match.simps if_True .
  from r0 obtain a v1 where 1: "s = a @ v1" "a \<noteq> []"
      "\<forall>c\<in>set a. atom_matches (Bracket True [Single CHR ''@'']) c"
    and r1: "run True [Piece (Lit CHR ''@'') Once False,
      Piece (Bracket True [Single CHR ''@'']) Plus False,
      Piece (Lit CHR ''.'') Once False,
      Piece (Bracket True [Single CHR ''@'']) Plus False] v1 \<noteq> None"
    by (rule run_PlusE)
  from r1 obtain v2 where 2: "v1 = CHR ''@'' # v2"
    and r2: "run True [Piece (Bracket True [Single CHR ''@'']) Plus False,
      Piece (Lit CHR ''.'') Once False,
      Piece (Bracket True [Single CHR ''@'']) Plus False] v2 \<noteq> None"
    by (rule run_OnceE)
  from r2 obtain b v3 where 3: "v2 = b @ v3" "b \<noteq> []"
      "\<forall>c\<in>set b. atom_matches (Bracket True [Single CHR ''@'']) c"
    and r3: "run True [Piece (Lit CHR ''.'') Once False,
      Piece (Bracket True [Single CHR ''@'']) Plus False] v3 \<noteq> None"
    by (rule run_PlusE)
  from r3 obtain v4 where 4: "v3 = CHR ''.'' # v4"
    and r4: "run True [Piece (Bracket True [Single CHR ''@'']) Plus False] v4 \<noteq> None"
    by (rule run_OnceE)
  from r4 obtain c v5 where 5: "v4 = c @ v5" "c \<noteq> []"
      "\<forall>x\<in>set c. atom_matches (Bracket True [Single CHR ''@'']) x"
    and r5: "run True [] v5 \<noteq> None"
    by (rule run_PlusE)
  from r5 have 6: "v5 = []" by (simp split: if_splits)
  have eq: "s = a @ ''@'' @ b @ ''.'' @ c" using 1(1) 2 3(1) 4 5(1) 6 by simp
  have na: "CHR ''@'' \<notin> set a" using 1(3) by (simp only: not_at_iff) blast
  have nb: "CHR ''@'' \<notin> set b" using 3(3) by (simp only: not_at_iff) blast
  have nc: "CHR ''@'' \<notin> set c" using 5(3) by (simp only: not_at_iff) blast
  have "s = a @ ''@'' @ b @ ''.'' @ c \<and> a \<noteq> [] \<and> b \<noteq> [] \<and> c \<noteq> [] \<and>
        CHR ''@'' \<notin> set a \<and> CHR ''@'' \<notin> set b \<and> CHR ''@'' \<notin> set c"
    using eq 1(2) 3(2) 5(2) na nb nc by (intro conjI)
  then show "spec_email_shape s"
    unfolding spec_email_shape_def by (intro exI)
next
  assume "spec_email_shape s"
  then obtain a b c where s: "s = a @ ''@'' @ b @ ''.'' @ c"
    and ne: "a \<noteq> []" "b \<noteq> []" "c \<noteq> []"
    and na: "CHR ''@'' \<notin> set a" "CHR ''@'' \<notin> set b" "CHR ''@'' \<notin> set c"
    unfolding spec_email_shape_def by (elim exE conjE)
  have ma: "\<forall>x\<in>set a. atom_matches (Bracket True [Single CHR ''@'']) x"
    using na(1) by (simp only: not_at_iff) blast
  have mb: "\<forall>x\<in>set b. atom_matches (Bracket True [Single CHR ''@'']) x"
    using na(2) by (simp only: not_at_iff) blast
  have mc: "\<forall>x\<in>set c. atom_matches (Bracket True [Single CHR ''@'']) x"
    using na(3) by (simp only: not_at_iff) blast
  have r6: "run True [] [] \<noteq> None" by simp
  have r5: "run True [Piece (Bracket True [Single CHR ''@'']) Plus False] (c @ []) \<noteq> None"
    using ne(3) mc r6 by (rule run_PlusI)
  have r4: "run True [Piece (Lit CHR ''.'') Once False,
      Piece (Bracket True [Single CHR ''@'']) Plus False] (CHR ''.'' # c @ []) \<noteq> None"
    using r5 by (rule run_OnceI)
  have r3: "run True [Piece (Bracket True [Single CHR ''@'']) Plus False,
      Piece (Lit CHR ''.'') Once False,
      Piece (Bracket True [Single CHR ''@'']) Plus False] (b @ CHR ''.'' # c @ []) \<noteq> None"
    using ne(2) mb r4 by (rule run_PlusI)
  have r2: "run True [Piece (Lit CHR ''@'') Once False,
      Piece (Bracket True [Single CHR ''@'']) Plus False,
      Piece (Lit CHR ''.'') Once False,
      Piece (Bracket True [Single CHR ''@'']) Plus False]
      (CHR ''@'' # b @ CHR ''.'' # c @ []) \<noteq> None"
    using r3 by (rule run_OnceI)
  have r1: "run True [Piece (Bracket True [Single CHR ''@'']) Plus False,
      Piece (Lit CHR ''@'') Once False,
      Piece (Bracket True [Single CHR ''@'']) Plus False,
      Piece (Lit CHR ''.'') Once False,
      Piece (Bracket True [Single CHR ''@'']) Plus False]
      (a @ CHR ''@'' # b @ CHR ''.'' # c @ []) \<noteq> None"
    using ne(1) ma r2 by (rule run_PlusI)
  have "s = a @ CHR ''@'' # b @ CHR ''.'' # c @ []" using s by simp
  with r1 show "find_match email_pattern s \<noteq> None"
    unfolding email_pattern_def find_match.simps if_True by simp
qed

subsection \<open>The domain pattern takes the longest run of its characters after the \<^verbatim>\<open>@\<close>\<close>

lemma domain_class_char: "atom_matches domain_class c \<longleftrightarrow> spec_domain_char c"
  by (auto simp: domain_class_def spec_domain_char_def)

lemma run_Plus_last:
  "run False [Piece a Plus True] s =
     (if takeWhile (atom_matches a) s = [] then None else Some (takeWhile (atom_matches a) s))"
  by (induction s) (auto simp: capture_def)

lemma search_no_lit:
  "c \<notin> set s \<Longrightarrow> search e (Piece (Lit c) q g # ps) s = None"
proof (induction s)
  case Nil
  then show ?case by simp
next
  case (Cons x s)
  then have "run e (Piece (Lit c) q g # ps) (x # s) = None"
    by (cases q) auto
  with Cons show ?case by simp
qed

lemma search_skip:
  "c \<notin> set a \<Longrightarrow>
     search e (Piece (Lit c) q g # ps) (a @ c # t) = search e (Piece (Lit c) q g # ps) (c # t)"
proof (induction a)
  case Nil
  then show ?case by simp
next
  case (Cons x a)
  then have "run e (Piece (Lit c) q g # ps) (x # a @ c # t) = None"
    by (cases q) auto
  with Cons show ?case by simp
qed

lemma after_at_split: "CHR ''@'' \<notin> set a \<Longrightarrow> after_at (a @ CHR ''@'' # t) = t"
  by (induction a) (auto simp: after_at_def)

lemma find_domain_pattern:
  assumes "CHR ''@'' \<notin> set a" and "CHR ''@'' \<notin> set t"
  shows "find_match domain_pattern (a @ CHR ''@'' # t) =
           (if spec_domain (a @ CHR ''@'' # t) = [] then None
            else Some (spec_domain (a @ CHR ''@'' # t)))"
proof -
  have cls: "atom_matches domain_class = spec_domain_char"
    by (rule ext) (rule domain_class_char)
  have dom: "spec_domain (a @ CHR ''@'' # t) = takeWhile spec_domain_char t"
    using assms(1) by (simp add: spec_domain_def after_at_split)
  have at: "run False [Piece (Lit CHR ''@'') Once False, Piece domain_class Plus True]
              (CHR ''@'' # t) = run False [Piece domain_class Plus True] t"
    by (simp add: capture_def option.map_ident cong: map_option_cong)
  have "find_match domain_pattern (a @ CHR ''@'' # t) =
          search False [Piece (Lit CHR ''@'') Once False, Piece domain_class Plus True]
            (CHR ''@'' # t)"
    using assms(1) by (simp add: domain_pattern_def search_skip)
  also have "\<dots> = (case run False [Piece domain_class Plus True] t of
                     Some cap \<Rightarrow> Some cap
                   | None \<Rightarrow> search False [Piece (Lit CHR ''@'') Once False,
                                            Piece domain_class Plus True] t)"
    by (simp only: search.simps at)
  also have "\<dots> = (if takeWhile spec_domain_char t = [] then None
                   else Some (takeWhile spec_domain_char t))"
    using assms(2) by (simp add: run_Plus_last cls search_no_lit)
  finally show ?thesis by (simp only: dom)
qed

lemma regexp_extract_domain:
  assumes "spec_email_shape s"
  shows "regexp_extract domain_pattern (StrV s) = StrV (spec_domain s)"
proof -
  from assms obtain a b c where s: "s = a @ ''@'' @ b @ ''.'' @ c"
    and na: "CHR ''@'' \<notin> set a" "CHR ''@'' \<notin> set b" "CHR ''@'' \<notin> set c"
    unfolding spec_email_shape_def by (elim exE conjE)
  have s': "s = a @ CHR ''@'' # (b @ ''.'' @ c)" using s by simp
  have nt: "CHR ''@'' \<notin> set (b @ ''.'' @ c)" using na by simp
  show ?thesis
    unfolding s' regexp_extract_def cell.case find_domain_pattern [OF na(1) nt]
    by simp
qed

section \<open>Data frames\<close>

lemma lower_names:
  "lower ''email'' = ''email''" "lower ''domain'' = ''domain''"
  "lower ''signup_date'' = ''signup_date''" "lower ''user_id'' = ''user_id''"
  by (simp_all add: lower_def lower_char_def)

lemma map_of_put:
  "map_of (map (\<lambda>(k, c). (lower k, c)) (put name v r)) =
     (map_of (map (\<lambda>(k, c). (lower k, c)) r))(lower name \<mapsto> v)"
  by (induction r) (auto simp: fun_eq_iff)

lemma cell_of_put:
  "cell_of (put name v r) k = (if lower k = lower name then v else cell_of r k)"
  by (simp add: cell_of_def map_of_put)

lemma has_column_mem: "name \<in> set (columns df) \<Longrightarrow> has_column df name"
  by (simp add: has_column_def)

lemma unresolved_Col: "unresolved (Col n) df = (if has_column df n then None else Some n)"
  by (simp add: unresolved_def)

lemma unresolved_simps:
  "unresolved (RLike e p) df = unresolved e df"
  "unresolved (FromUnixtime e) df = unresolved e df"
  "unresolved (ToDate e) df = unresolved e df"
  "unresolved (RegexpExtract e p) df = unresolved e df"
  "unresolved (CastInt e) df = unresolved e df"
  by (simp_all add: unresolved_def)

lemma rlike_email_true:
  "rlike email_pattern c = BoolV True \<longleftrightarrow> (\<exists>s. c = StrV s \<and> spec_email_shape s)"
proof (cases c)
  case (StrV s)
  then show ?thesis
    using find_email_pattern [of s] by (auto simp: rlike_def)
qed (simp_all add: rlike_def)

lemma filter_emails_Inr:
  "filter_emails df = Inr dv \<longleftrightarrow>
     has_column df ''email'' \<and>
     dv = df\<lparr>rows := filter (\<lambda>r. rlike email_pattern (cell_of r ''email'') = BoolV True) (rows df)\<rparr>"
  by (auto simp: filter_emails_def df_filter_def unresolved_simps unresolved_Col)

lemma filter_emails_Inl:
  "filter_emails df = Inl e \<longleftrightarrow>
     \<not> has_column df ''email'' \<and> e = AnalysisException (UnresolvedColumn ''email'')"
  by (auto simp: filter_emails_def df_filter_def unresolved_simps unresolved_Col)

lemma withColumn_Col:
  "withColumn name e df =
     (case unresolved e df of
        Some missing \<Rightarrow> Inl (AnalysisException (UnresolvedColumn missing))
      | None \<Rightarrow>
          Inr \<lparr>time_zone = time_zone df,
               columns = (if has_column df name
                          then map (\<lambda>c. if lower c = lower name then name else c) (columns df)
                          else columns df @ [name]),
               rows = map (\<lambda>r. put name (eval (time_zone df) r e) r) (rows df)\<rparr>)"
  by (simp add: withColumn_def split: option.splits)

lemma has_column_withColumn:
  assumes "withColumn name e df = Inr d"
  shows "has_column d n \<longleftrightarrow> lower n = lower name \<or> has_column df n"
proof -
  from assms have c: "columns d =
      (if has_column df name
       then map (\<lambda>c. if lower c = lower name then name else c) (columns df)
       else columns df @ [name])"
    by (auto simp: withColumn_def split: option.splits)
  show ?thesis
  proof (cases "has_column df name")
    case True
    then have "lower ` set (columns d) = lower ` set (columns df)"
      unfolding c has_column_def by (auto simp: image_iff)
    with True show ?thesis by (auto simp: has_column_def)
  next
    case False
    then show ?thesis by (auto simp: c has_column_def)
  qed
qed

lemma rows_withColumn:
  assumes "withColumn name e df = Inr d"
  shows "rows d = map (\<lambda>r. put name (eval (time_zone df) r e) r) (rows df)"
    and "time_zone d = time_zone df" and "unresolved e df = None"
  using assms by (auto simp: withColumn_def split: option.splits)

lemma withColumn_total:
  assumes "unresolved e df = None"
  shows "\<exists>d. withColumn name e df = Inr d"
  using assms by (simp add: withColumn_def)

lemma transform_chain_Inr:
  assumes "transform_chain df = Inr d"
  shows "\<exists>dv. filter_emails df = Inr dv \<and> time_zone d = time_zone df \<and>
           rows d = map (transform_row (time_zone df)) (rows dv)"
proof -
  from assms obtain dv d2 d3 where f: "filter_emails df = Inr dv"
    and w2: "withColumn ''signup_date'' (ToDate (FromUnixtime (Col ''signup_date''))) dv = Inr d2"
    and w3: "withColumn ''domain'' (RegexpExtract (Col ''email'') domain_pattern) d2 = Inr d3"
    and w4: "withColumn ''user_id'' (CastInt (Col ''user_id'')) d3 = Inr d"
    unfolding transform_chain_def by (auto split: sum.splits)
  from f have tz: "time_zone dv = time_zone df" by (auto simp: filter_emails_Inr)
  have r2: "rows d2 = map (\<lambda>r. put ''signup_date''
              (to_date (from_unixtime (time_zone df) (cell_of r ''signup_date''))) r) (rows dv)"
    and t2: "time_zone d2 = time_zone df"
    using rows_withColumn(1,2) [OF w2] tz by simp_all
  have r3: "rows d3 = map (\<lambda>r. put ''domain''
              (regexp_extract domain_pattern (cell_of r ''email'')) r) (rows d2)"
    and t3: "time_zone d3 = time_zone df"
    using rows_withColumn(1,2) [OF w3] t2 by simp_all
  have r4: "rows d = map (\<lambda>r. put ''user_id'' (cast_int_cell (cell_of r ''user_id'')) r) (rows d3)"
    and t4: "time_zone d = time_zone df"
    using rows_withColumn(1,2) [OF w4] t3 by simp_all
  have "rows d = map (transform_row (time_zone df)) (rows dv)"
    by (simp add: r4 r3 r2 transform_row_def cell_of_put lower_names)
  with f t4 show ?thesis by blast
qed

lemma transform_chain_total:
  assumes "has_column df ''email''" and "has_column df ''signup_date''"
    and "has_column df ''user_id''"
  shows "\<exists>d. transform_chain df = Inr d"
proof -
  obtain dv where f: "filter_emails df = Inr dv"
    using assms(1) by (simp add: filter_emails_Inr)
  then have c: "columns dv = columns df" by (auto simp: filter_emails_Inr)
  have h: "has_column dv n = has_column df n" for n
    by (simp add: has_column_def c)
  obtain d2 where w2:
    "withColumn ''signup_date'' (ToDate (FromUnixtime (Col ''signup_date''))) dv = Inr d2"
    using withColumn_total [of "ToDate (FromUnixtime (Col ''signup_date''))" dv] assms(2)
    by (auto simp: unresolved_simps unresolved_Col h)
  have h2: "has_column d2 ''email''" "has_column d2 ''user_id''"
    using assms(1,3) by (simp_all add: has_column_withColumn [OF w2] h)
  obtain d3 where w3:
    "withColumn ''domain'' (RegexpExtract (Col ''email'') domain_pattern) d2 = Inr d3"
    using withColumn_total [of "RegexpExtract (Col ''email'') domain_pattern" d2] h2(1)
    by (auto simp: unresolved_simps unresolved_Col)
  have h3: "has_column d3 ''user_id''"
    using h2(2) by (simp add: has_column_withColumn [OF w3])
  obtain d where w4: "withColumn ''user_id'' (CastInt (Col ''user_id'')) d3 = Inr d"
    using withColumn_total [of "CastInt (Col ''user_id'')" d3] h3
    by (auto simp: unresolved_simps unresolved_Col)
  show ?thesis
    by (simp add: transform_chain_def f w2 w3 w4)
qed

lemma transform_chain_Inl:
  "transform_chain df = Inl e \<Longrightarrow> \<exists>c. e = AnalysisException (UnresolvedColumn c)"
  unfolding transform_chain_def
  by (auto simp: filter_emails_def df_filter_def withColumn_def
      split: sum.splits option.splits)

lemma transform_data_Inr:
  "transform_data df w = (Inr d, w') \<longleftrightarrow> transform_chain df = Inr d \<and> w' = w"
  by (auto simp: transform_data_def split: sum.splits exn.splits)

lemma transform_data_Inl:
  "transform_data df w = (Inl e, w') \<longleftrightarrow>
     transform_chain df = Inl e \<and> w' = logging_error (TransformFailed e) w"
  using transform_chain_Inl [of df]
  by (auto simp: transform_data_def split: sum.splits exn.splits)

section \<open>The stages and the orchestrator\<close>

lemma extract_data_None:
  "csv_files w p = None \<Longrightarrow>
     extract_data p w =
       (Inl (AnalysisException (PathDoesNotExist p)),
        logging_error (ExtractFailed p (AnalysisException (PathDoesNotExist p))) w)"
  by (simp add: extract_data_def)

lemma extract_data_Some:
  "csv_files w p = Some records \<Longrightarrow>
   distinct (map lower (columns (read_csv (jvm_time_zone w) records))) \<Longrightarrow>
     extract_data p w = (Inr (read_csv (jvm_time_zone w) records), logging_info (ExtractOk p) w)"
  by (simp add: extract_data_def)

lemma extract_data_duplicates:
  "csv_files w p = Some records \<Longrightarrow>
   \<not> distinct (map lower (columns (read_csv (jvm_time_zone w) records))) \<Longrightarrow>
     extract_data p w =
       (Inl (AnalysisException DuplicateColumns),
        logging_error (ExtractFailed p (AnalysisException DuplicateColumns)) w)"
  by (simp add: extract_data_def)

lemma extract_data_Inl:
  "extract_data p w = (Inl e, w') \<Longrightarrow> w' = logging_error (ExtractFailed p e) w"
  by (auto simp: extract_data_def split: option.splits if_splits)

lemma extract_data_Inr:
  "extract_data p w = (Inr df, w') \<Longrightarrow>
     \<exists>records. csv_files w p = Some records \<and> df = read_csv (jvm_time_zone w) records \<and>
       distinct (map lower (columns df)) \<and> w' = logging_info (ExtractOk p) w"
  by (auto simp: extract_data_def split: option.splits if_splits)

lemma load_accepts:
  "jdbc_accepts (db w) jdbc_url (Some t) username password \<Longrightarrow>
     load_data_to_postgresql df jdbc_url (Some t) username password w =
       (None, logging_info (LoadOk (Some t)) (w\<lparr>db := append_rows t (rows df) (db w)\<rparr>))"
  by (simp add: load_data_to_postgresql_def)

lemma load_result:
  "load_data_to_postgresql df jdbc_url table_name username password w = (r, w') \<Longrightarrow>
     (r = None \<and> (\<exists>t. table_name = Some t \<and>
          jdbc_accepts (db w) jdbc_url table_name username password \<and>
          w' = logging_info (LoadOk table_name) (w\<lparr>db := append_rows t (rows df) (db w)\<rparr>))) \<or>
     (r = Some JavaError \<and> w' = logging_error (LoadFailed JavaError) w)"
  by (auto simp: load_data_to_postgresql_def split: option.splits if_splits)

lemma tables_append_rows:
  "tables (append_rows t new d) t' =
     (if t' = t then Some (existing d t @ new) else tables d t')"
  by (simp add: append_rows_def existing_def split: option.splits)

lemma jdbc_accepts_append_rows:
  "jdbc_accepts (append_rows t new d) jdbc_url table_name username password =
     jdbc_accepts d jdbc_url table_name username password"
  by (simp add: jdbc_accepts_def append_rows_def)

text \<open>A run that fails: which stage, what it logged, and what it left.\<close>

lemma etl_pipeline_failed:
  assumes "etl_pipeline p jdbc_url table_name username password w = (Some e, w')"
  shows "\<exists>pre m. logged w' = logged w @ pre @ [(ERROR, m)] \<and>
           (m = ExtractFailed p e \<or> m = TransformFailed e \<or> m = LoadFailed e) \<and>
           list_all (\<lambda>x. fst x = INFO) pre \<and>
           session_active w' \<and> db w' = db w \<and> printed w' = printed w"
proof -
  obtain r w1 where ex: "extract_data p (w\<lparr>session_active := True\<rparr>) = (r, w1)"
    by (cases "extract_data p (w\<lparr>session_active := True\<rparr>)")
  show ?thesis
  proof (cases r)
    case (Inl e')
    with ex assms have "e = e'" and "w' = w1"
      by (auto simp: etl_pipeline_def)
    moreover from ex Inl have "w1 = logging_error (ExtractFailed p e') (w\<lparr>session_active := True\<rparr>)"
      by (simp add: extract_data_Inl)
    ultimately have "logged w' = logged w @ [] @ [(ERROR, ExtractFailed p e)]"
      and "session_active w'" and "db w' = db w" and "printed w' = printed w"
      by (simp_all add: logging_error_def)
    then show ?thesis by (intro exI [of _ "[]"] exI [of _ "ExtractFailed p e"]) simp
  next
    case (Inr df)
    with ex have ex: "extract_data p (w\<lparr>session_active := True\<rparr>) = (Inr df, w1)" by simp
    from extract_data_Inr [OF ex]
    have w1_def: "w1 = logging_info (ExtractOk p) (w\<lparr>session_active := True\<rparr>)" by blast
    have w1: "logged w1 = logged w @ [(INFO, ExtractOk p)]" "session_active w1" "db w1 = db w"
        "printed w1 = printed w"
      by (simp_all add: w1_def logging_info_def)
    show ?thesis
    proof (cases "transform_chain df")
      case (Inl e')
      then have "transform_data df w1 = (Inl e', logging_error (TransformFailed e') w1)"
        by (simp add: transform_data_Inl)
      with assms ex have "e = e'" and "w' = logging_error (TransformFailed e') w1"
        by (auto simp: etl_pipeline_def)
      with w1 have "logged w' = logged w @ [(INFO, ExtractOk p)] @ [(ERROR, TransformFailed e)]"
        and "session_active w'" and "db w' = db w" and "printed w' = printed w"
        by (simp_all add: logging_error_def)
      then show ?thesis
        by (intro exI [of _ "[(INFO, ExtractOk p)]"] exI [of _ "TransformFailed e"]) simp
    next
      case (Inr d)
      then have td: "transform_data df w1 = (Inr d, w1)"
        by (simp add: transform_data_Inr)
      obtain r w3 where ld: "load_data_to_postgresql d jdbc_url table_name username password w1 = (r, w3)"
        by (cases "load_data_to_postgresql d jdbc_url table_name username password w1")
      from assms ex td ld have "r = Some e" and "w' = w3"
        by (auto simp: etl_pipeline_def split: option.splits)
      with load_result [OF ld] have "e = JavaError" and "w' = logging_error (LoadFailed JavaError) w1"
        by auto
      with w1 have "logged w' = logged w @ [(INFO, ExtractOk p)] @ [(ERROR, LoadFailed e)]"
        and "session_active w'" and "db w' = db w" and "printed w' = printed w"
        by (simp_all add: logging_error_def)
      then show ?thesis
        by (intro exI [of _ "[(INFO, ExtractOk p)]"] exI [of _ "LoadFailed e"]) simp
    qed
  qed
qed

text \<open>A run that succeeds: what it read, what it wrote, and what it left.\<close>

lemma etl_pipeline_succeeded:
  assumes "etl_pipeline p jdbc_url table_name username password w = (None, w')"
  shows "\<exists>records d t. csv_files w p = Some records \<and>
           distinct (map lower (columns (read_csv (jvm_time_zone w) records))) \<and>
           transform_chain (read_csv (jvm_time_zone w) records) = Inr d \<and>
           table_name = Some t \<and>
           jdbc_accepts (db w) jdbc_url table_name username password \<and>
           w' = w\<lparr>session_active := False,
                  db := append_rows t (rows d) (db w),
                  logged := logged w @ [(INFO, ExtractOk p), (INFO, LoadOk table_name)],
                  printed := printed w @ [Completed]\<rparr>"
proof -
  obtain r w1 where ex: "extract_data p (w\<lparr>session_active := True\<rparr>) = (r, w1)"
    by (cases "extract_data p (w\<lparr>session_active := True\<rparr>)")
  show ?thesis
  proof (cases r)
    case (Inl e')
    with ex assms show ?thesis by (simp add: etl_pipeline_def)
  next
    case (Inr df)
    with ex have ex: "extract_data p (w\<lparr>session_active := True\<rparr>) = (Inr df, w1)" by simp
    from extract_data_Inr [OF ex] obtain records
      where f: "csv_files w p = Some records"
        and df: "df = read_csv (jvm_time_zone w) records"
        and dc: "distinct (map lower (columns df))"
        and w1_def: "w1 = logging_info (ExtractOk p) (w\<lparr>session_active := True\<rparr>)"
      by auto
    show ?thesis
    proof (cases "transform_chain df")
      case (Inl e')
      then have "transform_data df w1 = (Inl e', logging_error (TransformFailed e') w1)"
        by (simp add: transform_data_Inl)
      with assms ex show ?thesis by (simp add: etl_pipeline_def)
    next
      case (Inr d)
      then have td: "transform_data df w1 = (Inr d, w1)"
        by (simp add: transform_data_Inr)
      obtain r w3 where ld: "load_data_to_postgresql d jdbc_url table_name username password w1 = (r, w3)"
        by (cases "load_data_to_postgresql d jdbc_url table_name username password w1")
      from assms ex td ld have r: "r = None"
        and w': "w' = (print_line Completed w3)\<lparr>session_active := False\<rparr>"
        by (auto simp: etl_pipeline_def split: option.splits)
      with load_result [OF ld] obtain t where t: "table_name = Some t"
        and acc: "jdbc_accepts (db w1) jdbc_url table_name username password"
        and w3: "w3 = logging_info (LoadOk table_name) (w1\<lparr>db := append_rows t (rows d) (db w1)\<rparr>)"
        by auto
      have "w' = w\<lparr>session_active := False,
                    db := append_rows t (rows d) (db w),
                    logged := logged w @ [(INFO, ExtractOk p), (INFO, LoadOk table_name)],
                    printed := printed w @ [Completed]\<rparr>"
        by (simp add: w' w3 w1_def logging_info_def print_line_def)
      moreover have "jdbc_accepts (db w) jdbc_url table_name username password"
        using acc by (simp add: w1_def logging_info_def)
      ultimately show ?thesis
        using f dc Inr t unfolding df by blast
    qed
  qed
qed

section \<open>The filter and the transformation, row by row\<close>

lemma cell_of_transform_row:
  "cell_of (transform_row tz r) ''email'' = cell_of r ''email''"
  "cell_of (transform_row tz r) ''domain'' = regexp_extract domain_pattern (cell_of r ''email'')"
  "cell_of (transform_row tz r) ''signup_date'' =
     to_date (from_unixtime tz (cell_of r ''signup_date''))"
  "cell_of (transform_row tz r) ''user_id'' = cast_int_cell (cell_of r ''user_id'')"
  by (simp_all add: transform_row_def cell_of_put lower_names)

lemma transform_rows:
  assumes "filter_emails df = Inr dv" and "transform_data df w = (Inr df', w')"
  shows "rows df' = map (transform_row (time_zone df)) (rows dv)" and "w' = w"
proof -
  from assms(2) have c: "transform_chain df = Inr df'" and w: "w' = w"
    by (simp_all add: transform_data_Inr)
  from transform_chain_Inr [OF c] assms(1)
  show "rows df' = map (transform_row (time_zone df)) (rows dv)" by auto
  show "w' = w" by (rule w)
qed

lemma validated_row:
  assumes "filter_emails df = Inr dv" and "r \<in> set (rows dv)"
  shows "r \<in> set (rows df)" and "\<exists>s. cell_of r ''email'' = StrV s \<and> spec_email_shape s"
  using assms by (auto simp: filter_emails_Inr rlike_email_true)

lemma sample_frame_columns:
  "columns sample_frame = [''user_id'', ''name'', ''email'', ''signup_date'']"
  by code_simp

lemma sample_frame_time_zone: "time_zone sample_frame = 0"
  by (simp add: sample_frame_def read_csv_def sample_file_def)

lemma sample_frame_has_columns:
  "has_column sample_frame ''email''" "has_column sample_frame ''signup_date''"
  "has_column sample_frame ''user_id''"
  by (rule has_column_mem, simp add: sample_frame_columns)+

lemma sample_frame_filtered: "\<exists>dv. filter_emails sample_frame = Inr dv"
  by (simp add: filter_emails_Inr sample_frame_has_columns)

lemma sample_frame_transformed:
  "\<exists>df'. transform_data sample_frame w = (Inr df', w)"
proof -
  have "\<exists>d. transform_chain sample_frame = Inr d"
    by (rule transform_chain_total) (rule sample_frame_has_columns)+
  then show ?thesis by (simp add: transform_data_Inr)
qed

text \<open>
  Claim C3. On a frame that has the column \<open>email\<close>, the filter raises nothing and keeps
  the rows of the input, in their order, whose \<open>email\<close> is a text of the shape the
  specification describes: a row is in the output if and only if it is in the input and
  has that shape. A frame whose rows all have the shape comes back unchanged, and the
  filter applied to its own output changes nothing.
\<close>

theorem filter_emails_keeps_shape:
  assumes "''email'' \<in> set (columns df)"
  shows "\<exists>dv. filter_emails df = Inr dv \<and>
           columns dv = columns df \<and>
           rows dv = filter (\<lambda>r. \<exists>s. cell_of r ''email'' = StrV s \<and> spec_email_shape s) (rows df) \<and>
           (\<forall>r. r \<in> set (rows dv) \<longleftrightarrow>
                  r \<in> set (rows df) \<and> (\<exists>s. cell_of r ''email'' = StrV s \<and> spec_email_shape s)) \<and>
           ((\<forall>r\<in>set (rows df). \<exists>s. cell_of r ''email'' = StrV s \<and> spec_email_shape s)
              \<longrightarrow> dv = df) \<and>
           filter_emails dv = Inr dv"
proof -
  define keep where "keep = (\<lambda>r. \<exists>s. cell_of r ''email'' = StrV s \<and> spec_email_shape s)"
  define dv where "dv = df\<lparr>rows := filter keep (rows df)\<rparr>"
  have pred: "(\<lambda>r. rlike email_pattern (cell_of r ''email'') = BoolV True) = keep"
    by (simp add: keep_def rlike_email_true fun_eq_iff)
  have 1: "filter_emails df = Inr dv"
    using has_column_mem [OF assms] by (simp add: filter_emails_Inr dv_def pred)
  have 2: "columns dv = columns df" and 3: "rows dv = filter keep (rows df)"
    by (simp_all add: dv_def)
  have 4: "\<forall>r. r \<in> set (rows dv) \<longleftrightarrow> r \<in> set (rows df) \<and> keep r"
    by (simp add: 3)
  have 5: "(\<forall>r\<in>set (rows df). keep r) \<longrightarrow> dv = df"
    by (simp add: dv_def)
  have "has_column dv ''email''"
    using has_column_mem [OF assms] by (simp add: has_column_def 2)
  then have 6: "filter_emails dv = Inr dv"
    by (simp add: filter_emails_Inr 3 pred)
  show ?thesis
    using 1 2 3 4 5 6 unfolding keep_def by blast
qed

theorem filter_emails_keeps_shape_witness:
  "''email'' \<in> set (columns sample_frame) \<and>
   (\<exists>dv. filter_emails sample_frame = Inr dv \<and> filter_emails dv = Inr dv \<and>
         map (\<lambda>r. cell_of r ''email'') (rows dv) =
           [StrV ''alice@sub.example.com'', StrV ''cy@mail.example.org'', StrV ''ed@example.io''])"
proof -
  have c: "''email'' \<in> set (columns sample_frame)"
    by (simp add: sample_frame_columns)
  from filter_emails_keeps_shape [OF c] obtain dv
    where dv: "filter_emails sample_frame = Inr dv" and idem: "filter_emails dv = Inr dv"
    by blast
  have "map (\<lambda>r. cell_of r ''email'') (rows (projr (filter_emails sample_frame))) =
          [StrV ''alice@sub.example.com'', StrV ''cy@mail.example.org'', StrV ''ed@example.io'']"
    by code_simp
  with dv have "map (\<lambda>r. cell_of r ''email'') (rows dv) =
          [StrV ''alice@sub.example.com'', StrV ''cy@mail.example.org'', StrV ''ed@example.io'']"
    by simp
  with c dv idem show ?thesis by (intro conjI exI [of _ dv])
qed

text \<open>
  Claim C4. Every record that passed the filter keeps its \<open>email\<close>, and its \<open>domain\<close> is
  the part of the \<open>email\<close> that follows the \<^verbatim>\<open>@\<close>, as far as it is made of the characters
  of the pattern \<^verbatim>\<open>@([A-Za-z0-9.-]+)\<close>: all of that part when it holds no other
  character. The records of the result stand in the order of the records that passed.
\<close>

theorem transform_data_domain:
  assumes "filter_emails df = Inr dv" and "transform_data df w = (Inr df', w')"
  shows "list_all2
           (\<lambda>r r'. \<exists>s. cell_of r ''email'' = StrV s \<and> spec_email_shape s \<and>
                       cell_of r' ''email'' = StrV s \<and>
                       cell_of r' ''domain'' = StrV (spec_domain s) \<and>
                       (list_all spec_domain_char (after_at s) \<longrightarrow>
                          cell_of r' ''domain'' = StrV (after_at s)))
           (rows dv) (rows df')"
proof -
  have rows: "rows df' = map (transform_row (time_zone df)) (rows dv)"
    using assms by (rule transform_rows)
  have "\<exists>s. cell_of r ''email'' = StrV s \<and> spec_email_shape s \<and>
            cell_of (transform_row (time_zone df) r) ''email'' = StrV s \<and>
            cell_of (transform_row (time_zone df) r) ''domain'' = StrV (spec_domain s) \<and>
            (list_all spec_domain_char (after_at s) \<longrightarrow>
               cell_of (transform_row (time_zone df) r) ''domain'' = StrV (after_at s))"
    if "r \<in> set (rows dv)" for r
  proof -
    from validated_row(2) [OF assms(1) that] obtain s
      where s: "cell_of r ''email'' = StrV s" "spec_email_shape s" by blast
    have d: "cell_of (transform_row (time_zone df) r) ''domain'' = StrV (spec_domain s)"
      by (simp add: cell_of_transform_row s regexp_extract_domain)
    have "spec_domain s = after_at s" if "list_all spec_domain_char (after_at s)"
      using that by (simp add: spec_domain_def list_all_iff)
    with s d show ?thesis by (auto simp: cell_of_transform_row)
  qed
  then show ?thesis
    by (simp add: rows list_all2_map2 list_all2_same)
qed

theorem transform_data_domain_witness:
  "\<exists>dv df'. filter_emails sample_frame = Inr dv \<and>
      transform_data sample_frame sample_world = (Inr df', sample_world) \<and>
      hd (rows dv) \<in> set (rows dv) \<and>
      cell_of (hd (rows dv)) ''email'' = StrV ''alice@sub.example.com'' \<and>
      cell_of (hd (rows df')) ''domain'' = StrV ''sub.example.com''"
proof -
  obtain dv where dv: "filter_emails sample_frame = Inr dv"
    using sample_frame_filtered by blast
  obtain df' where t: "transform_data sample_frame sample_world = (Inr df', sample_world)"
    using sample_frame_transformed by blast
  have "rows (projr (filter_emails sample_frame)) \<noteq> [] \<and>
        cell_of (hd (rows (projr (filter_emails sample_frame)))) ''email'' =
          StrV ''alice@sub.example.com''"
    by code_simp
  with dv have ne: "rows dv \<noteq> []"
    and e: "cell_of (hd (rows dv)) ''email'' = StrV ''alice@sub.example.com''"
    by simp_all
  from transform_data_domain [OF dv t] ne
  have "\<exists>s. cell_of (hd (rows dv)) ''email'' = StrV s \<and>
            cell_of (hd (rows df')) ''domain'' = StrV (spec_domain s)"
    by (cases "rows dv"; cases "rows df'") auto
  with e have "cell_of (hd (rows df')) ''domain'' = StrV (spec_domain ''alice@sub.example.com'')"
    by simp
  moreover have "spec_domain ''alice@sub.example.com'' = ''sub.example.com''"
    by code_simp
  ultimately have d: "cell_of (hd (rows df')) ''domain'' = StrV ''sub.example.com''"
    by simp
  have "hd (rows dv) \<in> set (rows dv)" using ne by simp
  with dv t e d show ?thesis by (intro exI [of _ dv] exI [of _ df'] conjI)
qed

section \<open>The cast to an integer\<close>

lemma takeWhile_all: "list_all P (takeWhile P xs)"
  by (induction xs) simp_all

lemma trim_all_decomp:
  "\<exists>pre post. s = pre @ trim_all s @ post \<and> list_all is_blank pre \<and> list_all is_blank post"
proof -
  define u where "u = dropWhile is_blank s"
  define post where "post = rev (takeWhile is_blank (rev u))"
  have s: "s = takeWhile is_blank s @ u"
    by (simp add: u_def)
  have "trim_all s @ post =
          rev (takeWhile is_blank (rev u) @ dropWhile is_blank (rev u))"
    by (simp only: trim_all_def u_def post_def rev_append)
  also have "\<dots> = rev (rev u)"
    by (simp only: takeWhile_dropWhile_id)
  also have "\<dots> = u" by simp
  finally have u: "u = trim_all s @ post" by simp
  have 1: "list_all is_blank (takeWhile is_blank s)"
    by (rule takeWhile_all)
  have "list_all is_blank (takeWhile is_blank (rev u))"
    by (rule takeWhile_all)
  then have 2: "list_all is_blank post"
    by (simp add: post_def list_all_iff)
  from s u have "s = takeWhile is_blank s @ trim_all s @ post"
    by simp
  with 1 2 show ?thesis
    by (intro exI [of _ "takeWhile is_blank s"] exI [of _ post] conjI)
qed

lemma dropWhile_blank_sandwich:
  assumes "list_all is_blank pre" and "mid \<noteq> []" and "\<not> is_blank (hd mid)"
  shows "dropWhile is_blank (pre @ mid @ post) = mid @ post"
proof -
  from assms(2) obtain x xs where mid: "mid = x # xs" by (cases mid) auto
  with assms(3) have "\<not> is_blank x" by simp
  then have "dropWhile is_blank (mid @ post) = mid @ post" by (simp add: mid)
  moreover have "dropWhile is_blank (pre @ mid @ post) = dropWhile is_blank (mid @ post)"
    using assms(1) by (intro dropWhile_append2) (simp add: list_all_iff)
  ultimately show ?thesis by simp
qed

lemma trim_all_sandwich:
  assumes "list_all is_blank pre" and "list_all is_blank post" and "mid \<noteq> []"
    and "\<not> is_blank (hd mid)" and "\<not> is_blank (last mid)"
  shows "trim_all (pre @ mid @ post) = mid"
proof -
  have 1: "dropWhile is_blank (pre @ mid @ post) = mid @ post"
    using assms(1,3,4) by (rule dropWhile_blank_sandwich)
  have "dropWhile is_blank (rev post @ rev mid @ []) = rev mid @ []"
    using assms(2,3,5) by (intro dropWhile_blank_sandwich) (simp_all add: hd_rev)
  then have "rev (dropWhile is_blank (rev (mid @ post))) = mid" by simp
  with 1 show ?thesis by (simp add: trim_all_def)
qed

lemma digit_not_blank: "is_digit c \<Longrightarrow> \<not> is_blank c"
  by (simp add: is_digit_def is_blank_def)

lemma digit_not_mark:
  "is_digit c \<Longrightarrow> c \<noteq> CHR ''.'' \<and> c \<noteq> CHR ''-'' \<and> c \<noteq> CHR ''+''"
  by (auto simp: is_digit_def)

lemma mark_not_blank:
  "\<not> is_blank CHR ''.''" "\<not> is_blank CHR ''-''" "\<not> is_blank CHR ''+''"
  by (simp_all add: is_blank_def)

text \<open>The digits before the point and the digits after it, of a text without a sign.\<close>

lemma split_at_point:
  assumes "list_all is_digit whole"
    and "frac = [] \<or> (\<exists>digits. frac = CHR ''.'' # digits)"
  shows "takeWhile (\<lambda>c. c \<noteq> CHR ''.'') (whole @ frac) = whole"
    and "dropWhile (\<lambda>c. c \<noteq> CHR ''.'') (whole @ frac) = frac"
proof -
  have f1: "takeWhile (\<lambda>c. c \<noteq> CHR ''.'') frac = []"
    using assms(2) by (cases frac) auto
  have f2: "dropWhile (\<lambda>c. c \<noteq> CHR ''.'') frac = frac"
    using assms(2) by (cases frac) auto
  from assms(1) show "takeWhile (\<lambda>c. c \<noteq> CHR ''.'') (whole @ frac) = whole"
  proof (induction whole)
    case Nil
    show ?case by (simp only: append_Nil f1)
  next
    case (Cons c cs)
    then have "c \<noteq> CHR ''.''" using digit_not_mark [of c] by simp
    with Cons show ?case by simp
  qed
  from assms(1) show "dropWhile (\<lambda>c. c \<noteq> CHR ''.'') (whole @ frac) = frac"
  proof (induction whole)
    case Nil
    show ?case by (simp only: append_Nil f2)
  next
    case (Cons c cs)
    then have "c \<noteq> CHR ''.''" using digit_not_mark [of c] by simp
    with Cons show ?case by simp
  qed
qed

lemma parse_body:
  assumes "list_all is_digit whole"
    and "frac = [] \<or> (\<exists>digits. frac = CHR ''.'' # digits \<and> list_all is_digit digits)"
  shows "list_all is_digit (takeWhile (\<lambda>c. c \<noteq> CHR ''.'') (whole @ frac)) \<and>
         list_all is_digit (drop 1 (dropWhile (\<lambda>c. c \<noteq> CHR ''.'') (whole @ frac))) \<and>
         digits_val (takeWhile (\<lambda>c. c \<noteq> CHR ''.'') (whole @ frac)) = digits_val whole"
proof -
  from assms(2) have f: "frac = [] \<or> (\<exists>digits. frac = CHR ''.'' # digits)" by auto
  have "list_all is_digit (drop 1 frac)" using assms(2) by auto
  then show ?thesis
    using assms(1) by (simp add: split_at_point [OF assms(1) f])
qed

lemma parse_integral_complete:
  assumes "spec_number_text s negative whole"
  shows "parse_integral s = Some (if negative then - digits_val whole else digits_val whole)"
proof -
  from assms obtain pre sign frac post
    where s: "s = pre @ sign @ whole @ frac @ post"
      and pre: "list_all is_blank pre" and post: "list_all is_blank post"
      and sign: "sign = [] \<and> \<not> negative \<or> sign = ''+'' \<and> \<not> negative \<or> sign = ''-'' \<and> negative"
      and whole: "list_all is_digit whole"
      and frac: "frac = [] \<or> (\<exists>digits. frac = CHR ''.'' # digits \<and> list_all is_digit digits)"
      and ne: "whole @ frac \<noteq> []"
    unfolding spec_number_text_def by blast
  define body where "body = whole @ frac"
  have body_chars: "\<forall>c\<in>set body. is_digit c \<or> c = CHR ''.''"
    using whole frac by (auto simp: body_def list_all_iff)
  have body_nb: "\<forall>c\<in>set body. \<not> is_blank c"
    using body_chars digit_not_blank mark_not_blank by blast
  have body_ns: "\<forall>c\<in>set body. c \<noteq> CHR ''-'' \<and> c \<noteq> CHR ''+''"
    using body_chars digit_not_mark by auto
  have bne: "body \<noteq> []" using ne by (simp add: body_def)
  define mid where "mid = sign @ body"
  have mne: "mid \<noteq> []" using bne by (simp add: mid_def)
  have mid_nb: "\<forall>c\<in>set mid. \<not> is_blank c"
    using body_nb sign mark_not_blank by (auto simp: mid_def)
  have "hd mid \<in> set mid" "last mid \<in> set mid" using mne by simp_all
  with mid_nb have h: "\<not> is_blank (hd mid)" and l: "\<not> is_blank (last mid)" by blast+
  have "s = pre @ mid @ post" by (simp add: s mid_def body_def)
  then have t: "trim_all s = mid"
    using trim_all_sandwich [OF pre post mne h l] by simp
  have pb: "list_all is_digit (takeWhile (\<lambda>c. c \<noteq> CHR ''.'') body) \<and>
         list_all is_digit (drop 1 (dropWhile (\<lambda>c. c \<noteq> CHR ''.'') body)) \<and>
         digits_val (takeWhile (\<lambda>c. c \<noteq> CHR ''.'') body) = digits_val whole"
    unfolding body_def using whole frac by (rule parse_body)
  from sign consider (none) "sign = []" "\<not> negative" | (plus) "sign = ''+''" "\<not> negative"
    | (minus) "sign = ''-''" "negative" by blast
  then show ?thesis
  proof cases
    case none
    have "hd body \<in> set body" using bne by simp
    with body_ns have "hd body \<noteq> CHR ''-''" "hd body \<noteq> CHR ''+''" by blast+
    with none bne pb show ?thesis
      by (simp add: parse_integral_def t mid_def Let_def)
  next
    case plus
    with bne pb show ?thesis
      by (simp add: parse_integral_def t mid_def Let_def)
  next
    case minus
    with bne pb show ?thesis
      by (simp add: parse_integral_def t mid_def Let_def)
  qed
qed

lemma parse_integral_sound:
  assumes "parse_integral s = Some v"
  shows "\<exists>negative whole. spec_number_text s negative whole \<and>
           v = (if negative then - digits_val whole else digits_val whole)"
proof -
  define t where "t = trim_all s"
  define negative where "negative = (hd t = CHR ''-'')"
  define signed where "signed = (negative \<or> hd t = CHR ''+'')"
  define body where "body = (if signed then tl t else t)"
  define whole where "whole = takeWhile (\<lambda>c. c \<noteq> CHR ''.'') body"
  define rest where "rest = dropWhile (\<lambda>c. c \<noteq> CHR ''.'') body"
  from assms have tne: "t \<noteq> []"
    by (auto simp: parse_integral_def t_def Let_def split: if_splits)
  from assms tne have bne: "body \<noteq> []"
    by (auto simp: parse_integral_def t_def negative_def signed_def body_def Let_def
        split: if_splits)
  from assms tne have dw: "list_all is_digit whole" and df: "list_all is_digit (drop 1 rest)"
    and v: "v = (if negative then - digits_val whole else digits_val whole)"
    by (auto simp: parse_integral_def t_def negative_def signed_def body_def whole_def rest_def
        Let_def split: if_splits)
  define sign where "sign = (if signed then [hd t] else [])"
  have t: "t = sign @ body"
    using tne by (simp add: sign_def body_def)
  have sg: "sign = [] \<and> \<not> negative \<or> sign = ''+'' \<and> \<not> negative \<or> sign = ''-'' \<and> negative"
    by (auto simp: sign_def signed_def negative_def)
  have b: "body = whole @ rest" by (simp add: whole_def rest_def)
  have r: "rest = [] \<or> (\<exists>digits. rest = CHR ''.'' # digits \<and> list_all is_digit digits)"
  proof (cases rest)
    case Nil
    then show ?thesis by simp
  next
    case (Cons x xs)
    then have "\<not> (x \<noteq> CHR ''.'')"
      using hd_dropWhile [of "\<lambda>c. c \<noteq> CHR ''.''" body] by (simp add: rest_def)
    with Cons df show ?thesis by simp
  qed
  from trim_all_decomp [of s] obtain pre post
    where s: "s = pre @ t @ post" and pre: "list_all is_blank pre"
      and post: "list_all is_blank post"
    unfolding t_def by blast
  have "s = pre @ sign @ whole @ rest @ post" using s t b by simp
  moreover have "whole @ rest \<noteq> []" using bne b by simp
  ultimately have "spec_number_text s negative whole"
    unfolding spec_number_text_def using pre post sg dw r by blast
  with v show ?thesis by blast
qed

lemma cast_int_spec: "cast_int s = Some v \<longleftrightarrow> spec_int_of_text s v"
proof
  assume "cast_int s = Some v"
  then have p: "parse_integral s = Some v" and lo: "- (2 ^ 31) \<le> v" and hi: "v < 2 ^ 31"
    by (auto simp: cast_int_def split: option.splits if_splits)
  from parse_integral_sound [OF p] lo hi show "spec_int_of_text s v"
    unfolding spec_int_of_text_def by blast
next
  assume "spec_int_of_text s v"
  then obtain negative whole where n: "spec_number_text s negative whole"
    and v: "v = (if negative then - digits_val whole else digits_val whole)"
    and lo: "- (2 ^ 31) \<le> v" and hi: "v < 2 ^ 31"
    unfolding spec_int_of_text_def by blast
  from parse_integral_complete [OF n] v have "parse_integral s = Some v" by simp
  with lo hi show "cast_int s = Some v" by (simp add: cast_int_def)
qed

lemma cast_int_cell_spec:
  "cast_int_cell (StrV s) = IntV v \<longleftrightarrow> spec_int_of_text s v"
  "cast_int_cell (StrV s) = Null \<longleftrightarrow> \<not> (\<exists>v. spec_int_of_text s v)"
proof -
  have 1: "cast_int_cell (StrV s) = IntV v \<longleftrightarrow> cast_int s = Some v"
    by (simp add: cast_int_cell_def split: option.splits)
  have 2: "cast_int_cell (StrV s) = Null \<longleftrightarrow> \<not> (\<exists>v. cast_int s = Some v)"
    by (simp add: cast_int_cell_def split: option.splits)
  show "cast_int_cell (StrV s) = IntV v \<longleftrightarrow> spec_int_of_text s v"
    by (simp only: 1 cast_int_spec)
  show "cast_int_cell (StrV s) = Null \<longleftrightarrow> \<not> (\<exists>v. spec_int_of_text s v)"
    by (simp only: 2 cast_int_spec)
qed

section \<open>The date of a sign-up time\<close>

lemma digit_char_is_digit: "is_digit (digit_char d)"
proof -
  have "0 \<le> d mod 10" and "d mod 10 < 10" by simp_all
  then have "nat (48 + d mod 10) mod 256 = nat (48 + d mod 10)"
    and "48 \<le> nat (48 + d mod 10)" and "nat (48 + d mod 10) \<le> 57"
    by simp_all
  then show ?thesis
    by (simp add: is_digit_def digit_char_def)
qed

lemma pad2_last: "\<not> is_blank (last (pad2 n))"
  using digit_char_is_digit [of n] by (simp add: pad2_def digit_not_blank)

lemma date_text_14: "pad4 2023 @ ''-'' @ pad2 11 @ ''-'' @ pad2 14 @ '' '' = ''2023-11-14 ''"
  by code_simp

lemma date_text_15: "pad4 2023 @ ''-'' @ pad2 11 @ ''-'' @ pad2 15 @ '' '' = ''2023-11-15 ''"
  by code_simp

lemma civil_19675: "civil_from_days 19675 = (2023, 11, 14)"
  by code_simp

lemma civil_19676: "civil_from_days 19676 = (2023, 11, 15)"
  by code_simp

lemma trim_all_id:
  assumes "s \<noteq> []" and "\<not> is_blank (hd s)" and "\<not> is_blank (last s)"
  shows "trim_all s = s"
  using trim_all_sandwich [of "[]" "[]" s] assms by simp

lemma parse_date_14:
  assumes "rest \<noteq> []" and "\<not> is_blank (last rest)"
  shows "parse_date (''2023-11-14 '' @ rest) = Some (2023, 11, 14)"
proof -
  have "trim_all (''2023-11-14 '' @ rest) = ''2023-11-14 '' @ rest"
    using assms by (intro trim_all_id) (simp_all add: is_blank_def)
  then show ?thesis
    by (simp add: parse_date_def is_digit_def digits_val_def digit_val_def
        days_in_month_def Let_def)
qed

lemma parse_date_15:
  assumes "rest \<noteq> []" and "\<not> is_blank (last rest)"
  shows "parse_date (''2023-11-15 '' @ rest) = Some (2023, 11, 15)"
proof -
  have "trim_all (''2023-11-15 '' @ rest) = ''2023-11-15 '' @ rest"
    using assms by (intro trim_all_id) (simp_all add: is_blank_def)
  then show ?thesis
    by (simp add: parse_date_def is_digit_def digits_val_def digit_val_def
        days_in_month_def Let_def)
qed

lemma format_timestamp_day:
  "\<exists>rest. rest \<noteq> [] \<and> \<not> is_blank (last rest) \<and>
     format_timestamp secs =
       (case civil_from_days (secs div 86400) of
          (y, m, d) \<Rightarrow> pad4 y @ ''-'' @ pad2 m @ ''-'' @ pad2 d @ '' '') @ rest"
proof -
  define rest where "rest = pad2 (secs mod 86400 div 3600) @ '':'' @
      pad2 (secs mod 86400 mod 3600 div 60) @ '':'' @ pad2 (secs mod 86400 mod 60)"
  have 1: "rest \<noteq> []" by (simp add: rest_def pad2_def)
  have "last rest = last (pad2 (secs mod 86400 mod 60))"
    by (simp add: rest_def pad2_def)
  then have 2: "\<not> is_blank (last rest)" by (simp only: pad2_last not_False_eq_True)
  have 3: "format_timestamp secs =
       (case civil_from_days (secs div 86400) of
          (y, m, d) \<Rightarrow> pad4 y @ ''-'' @ pad2 m @ ''-'' @ pad2 d @ '' '') @ rest"
    by (simp add: format_timestamp_def rest_def Let_def split: prod.splits)
  from 1 2 3 show ?thesis by blast
qed

lemma day_of_1700000000:
  fixes tz :: int
  assumes "- 64800 \<le> tz" and "tz \<le> 64800"
  shows "(1700000000 + tz) div 86400 = (if tz < 6400 then 19675 else 19676)"
proof (cases "tz < 6400")
  case True
  define r where "r = tz + 80000"
  have r: "0 \<le> r" "r < 86400" using assms True by (simp_all add: r_def)
  have "1700000000 + tz = r + 19675 * 86400" by (simp add: r_def)
  then have "(1700000000 + tz) div 86400 = (r + 19675 * 86400) div 86400" by simp
  also have "\<dots> = 19675 + r div 86400" by (rule div_mult_self1) simp
  also have "\<dots> = 19675" using r by simp
  finally show ?thesis using True by simp
next
  case False
  define r where "r = tz - 6400"
  have r: "0 \<le> r" "r < 86400" using assms False by (simp_all add: r_def)
  have "1700000000 + tz = r + 19676 * 86400" by (simp add: r_def)
  then have "(1700000000 + tz) div 86400 = (r + 19676 * 86400) div 86400" by simp
  also have "\<dots> = 19676 + r div 86400" by (rule div_mult_self1) simp
  also have "\<dots> = 19676" using r by simp
  finally show ?thesis using False by simp
qed

lemma cast_long_1700000000: "cast_long ''1700000000'' = Some 1700000000"
  by code_simp

lemma signup_date_1700000000:
  assumes "- 64800 \<le> tz" and "tz \<le> 64800"
  shows "to_date (from_unixtime tz (StrV ''1700000000'')) =
           (if tz < 6400 then DateV 2023 11 14 else DateV 2023 11 15)"
proof -
  obtain rest where rest: "rest \<noteq> []" "\<not> is_blank (last rest)"
    and f: "format_timestamp (1700000000 + tz) =
       (case civil_from_days ((1700000000 + tz) div 86400) of
          (y, m, d) \<Rightarrow> pad4 y @ ''-'' @ pad2 m @ ''-'' @ pad2 d @ '' '') @ rest"
    using format_timestamp_day [of "1700000000 + tz"] by blast
  have u: "from_unixtime tz (StrV ''1700000000'') = StrV (format_timestamp (1700000000 + tz))"
    by (simp add: from_unixtime_def cast_long_1700000000)
  show ?thesis
  proof (cases "tz < 6400")
    case True
    with day_of_1700000000 [OF assms] have "(1700000000 + tz) div 86400 = 19675" by simp
    with f have "format_timestamp (1700000000 + tz) = ''2023-11-14 '' @ rest"
      by (simp only: civil_19675 prod.case date_text_14)
    with parse_date_14 [OF rest] True show ?thesis
      by (simp add: u to_date_def)
  next
    case False
    with day_of_1700000000 [OF assms] have "(1700000000 + tz) div 86400 = 19676" by simp
    with f have "format_timestamp (1700000000 + tz) = ''2023-11-15 '' @ rest"
      by (simp only: civil_19676 prod.case date_text_15)
    with parse_date_15 [OF rest] False show ?thesis
      by (simp add: u to_date_def)
  qed
qed

text \<open>
  Claim C5, as the code has it. The script sets no time zone, so the date is the one of
  the session's zone. Every record that passed the filter with the text
  \<^verbatim>\<open>1700000000\<close> in \<open>signup_date\<close> has in the result the date 2023-11-14 when the zone
  is less than 6400 seconds (01:46:40) east of UTC, as UTC itself is, and 2023-11-15
  when it is further east; the time of day is gone. An offset lies within 18 hours of
  UTC.
\<close>

theorem transform_data_signup_date:
  assumes "filter_emails df = Inr dv" and "transform_data df w = (Inr df', w')"
    and "- 64800 \<le> time_zone df" and "time_zone df \<le> 64800"
  shows "list_all2
           (\<lambda>r r'. cell_of r ''signup_date'' = StrV ''1700000000'' \<longrightarrow>
                     cell_of r' ''signup_date'' =
                       (if time_zone df < 6400 then DateV 2023 11 14 else DateV 2023 11 15))
           (rows dv) (rows df')"
proof -
  have rows: "rows df' = map (transform_row (time_zone df)) (rows dv)"
    using assms(1,2) by (rule transform_rows)
  show ?thesis
    by (simp add: rows list_all2_map2 list_all2_same cell_of_transform_row
        signup_date_1700000000 [OF assms(3,4)])
qed

theorem transform_data_signup_date_witness:
  "\<exists>dv df'. filter_emails sample_frame = Inr dv \<and>
      transform_data sample_frame sample_world = (Inr df', sample_world) \<and>
      - 64800 \<le> time_zone sample_frame \<and> time_zone sample_frame \<le> 64800 \<and>
      time_zone sample_frame < 6400 \<and>
      cell_of (hd (rows dv)) ''signup_date'' = StrV ''1700000000'' \<and>
      cell_of (hd (rows df')) ''signup_date'' = DateV 2023 11 14"
proof -
  obtain dv where dv: "filter_emails sample_frame = Inr dv"
    using sample_frame_filtered by blast
  obtain df' where t: "transform_data sample_frame sample_world = (Inr df', sample_world)"
    using sample_frame_transformed by blast
  have lo: "- 64800 \<le> time_zone sample_frame" and hi: "time_zone sample_frame \<le> 64800"
    and utc: "time_zone sample_frame < 6400"
    by (simp_all add: sample_frame_time_zone)
  have "rows (projr (filter_emails sample_frame)) \<noteq> [] \<and>
        cell_of (hd (rows (projr (filter_emails sample_frame)))) ''signup_date'' =
          StrV ''1700000000''"
    by code_simp
  with dv have ne: "rows dv \<noteq> []"
    and e: "cell_of (hd (rows dv)) ''signup_date'' = StrV ''1700000000''"
    by simp_all
  from transform_data_signup_date [OF dv t lo hi] ne
  have "cell_of (hd (rows dv)) ''signup_date'' = StrV ''1700000000'' \<longrightarrow>
          cell_of (hd (rows df')) ''signup_date'' =
            (if time_zone sample_frame < 6400 then DateV 2023 11 14 else DateV 2023 11 15)"
    by (cases "rows dv"; cases "rows df'") simp_all
  with e have "cell_of (hd (rows df')) ''signup_date'' =
            (if time_zone sample_frame < 6400 then DateV 2023 11 14 else DateV 2023 11 15)"
    by (rule_tac mp)
  with utc have d: "cell_of (hd (rows df')) ''signup_date'' = DateV 2023 11 14"
    by simp
  from dv t lo hi utc e d show ?thesis by (intro exI [of _ dv] exI [of _ df'] conjI)
qed

text \<open>
  The claim as the specification states it fails: where the Java virtual machine runs
  two hours east of UTC, the run over the sample file, whose first record has
  \<^verbatim>\<open>1700000000\<close> in \<open>signup_date\<close>, writes that record with the date 2023-11-15.
\<close>

theorem signup_date_zone_counterexample:
  "map (\<lambda>r. cell_of r ''signup_date'')
     (rows (read_csv 0 (take 2 sample_file))) = [StrV ''1700000000''] \<and>
   fst (etl_pipeline ''data.csv'' (JDBC_URL sample_env) (POSTGRES_TABLE sample_env)
          (POSTGRES_USER sample_env) ''s3cret''
          (sample_world\<lparr>csv_files := [''data.csv'' \<mapsto> take 2 sample_file],
                        jvm_time_zone := 7200\<rparr>)) = None \<and>
   map (\<lambda>r. cell_of r ''signup_date'')
     (existing (db (snd (etl_pipeline ''data.csv'' (JDBC_URL sample_env)
          (POSTGRES_TABLE sample_env) (POSTGRES_USER sample_env) ''s3cret''
          (sample_world\<lparr>csv_files := [''data.csv'' \<mapsto> take 2 sample_file],
                        jvm_time_zone := 7200\<rparr>)))) ''users'') = [DateV 2023 11 15]"
  by code_simp

lemma cast_int_samples:
  "cast_int_cell (StrV ''42'') = IntV 42" "cast_int_cell (StrV ''42.7'') = IntV 42"
  "cast_int_cell (StrV ''abc'') = Null"
  by code_simp+

lemma cast_int_cell_Null: "cast_int_cell Null = Null"
  by (simp add: cast_int_cell_def)

text \<open>
  Claim C1, as the code has it. On a frame that has the three columns the transformation
  raises nothing and logs nothing, whatever the \<open>user_id\<close> cells hold, and every record
  that passed the filter is in the result. Its \<open>user_id\<close> is the integer its text stands
  for when the text is a number (blanks, an optional sign, digits, an optional point and
  digits, blanks) within the 32-bit range, with what follows the point cut off: \<open>42\<close> for
  \<^verbatim>\<open>"42"\<close> and for \<^verbatim>\<open>"42.7"\<close>. It is null for every other text, as for \<^verbatim>\<open>"abc"\<close>, and
  for a null.
\<close>

theorem transform_data_user_id:
  assumes "filter_emails df = Inr dv" and "''signup_date'' \<in> set (columns df)"
    and "''user_id'' \<in> set (columns df)"
  shows "\<exists>df'. transform_data df w = (Inr df', w) \<and>
           list_all2
             (\<lambda>r r'. (\<forall>s. cell_of r ''user_id'' = StrV s \<longrightarrow>
                          (\<forall>v. cell_of r' ''user_id'' = IntV v \<longleftrightarrow> spec_int_of_text s v) \<and>
                          (cell_of r' ''user_id'' = Null \<longleftrightarrow> \<not> (\<exists>v. spec_int_of_text s v))) \<and>
                      (cell_of r ''user_id'' = Null \<longrightarrow> cell_of r' ''user_id'' = Null))
             (rows dv) (rows df') \<and>
           spec_int_of_text ''42'' 42 \<and> spec_int_of_text ''42.7'' 42 \<and>
           \<not> (\<exists>v. spec_int_of_text ''abc'' v)"
proof -
  from assms(1) have e: "has_column df ''email''"
    by (simp add: filter_emails_Inr)
  from transform_chain_total [OF e has_column_mem [OF assms(2)] has_column_mem [OF assms(3)]]
  obtain df'
    where c: "transform_chain df = Inr df'" by blast
  then have t: "transform_data df w = (Inr df', w)"
    by (simp add: transform_data_Inr)
  have rows: "rows df' = map (transform_row (time_zone df)) (rows dv)"
    using assms(1) t by (rule transform_rows)
  have l: "list_all2
             (\<lambda>r r'. (\<forall>s. cell_of r ''user_id'' = StrV s \<longrightarrow>
                          (\<forall>v. cell_of r' ''user_id'' = IntV v \<longleftrightarrow> spec_int_of_text s v) \<and>
                          (cell_of r' ''user_id'' = Null \<longleftrightarrow> \<not> (\<exists>v. spec_int_of_text s v))) \<and>
                      (cell_of r ''user_id'' = Null \<longrightarrow> cell_of r' ''user_id'' = Null))
             (rows dv) (rows df')"
    by (simp add: rows list_all2_map2 list_all2_same cell_of_transform_row
        cast_int_cell_spec cast_int_cell_Null)
  have s1: "spec_int_of_text ''42'' 42"
    by (rule iffD1 [OF cast_int_cell_spec(1) cast_int_samples(1)])
  have s2: "spec_int_of_text ''42.7'' 42"
    by (rule iffD1 [OF cast_int_cell_spec(1) cast_int_samples(2)])
  have s3: "\<not> (\<exists>v. spec_int_of_text ''abc'' v)"
    by (rule iffD1 [OF cast_int_cell_spec(2) cast_int_samples(3)])
  from t l s1 s2 s3 show ?thesis by (intro exI [of _ df'] conjI)
qed

theorem transform_data_user_id_witness:
  "''signup_date'' \<in> set (columns sample_frame) \<and> ''user_id'' \<in> set (columns sample_frame) \<and>
   (\<exists>dv df'. filter_emails sample_frame = Inr dv \<and>
      transform_data sample_frame sample_world = (Inr df', sample_world) \<and>
      cell_of (hd (rows dv)) ''user_id'' = StrV ''42'' \<and>
      cell_of (hd (rows df')) ''user_id'' = IntV 42)"
proof -
  obtain dv where dv: "filter_emails sample_frame = Inr dv"
    using sample_frame_filtered by blast
  have c1: "''signup_date'' \<in> set (columns sample_frame)"
    and c2: "''user_id'' \<in> set (columns sample_frame)"
    by (simp_all add: sample_frame_columns)
  from transform_data_user_id [OF dv c1 c2, of sample_world] obtain df'
    where t: "transform_data sample_frame sample_world = (Inr df', sample_world)"
      and l: "list_all2
             (\<lambda>r r'. (\<forall>s. cell_of r ''user_id'' = StrV s \<longrightarrow>
                          (\<forall>v. cell_of r' ''user_id'' = IntV v \<longleftrightarrow> spec_int_of_text s v) \<and>
                          (cell_of r' ''user_id'' = Null \<longleftrightarrow> \<not> (\<exists>v. spec_int_of_text s v))) \<and>
                      (cell_of r ''user_id'' = Null \<longrightarrow> cell_of r' ''user_id'' = Null))
             (rows dv) (rows df')"
      and s1: "spec_int_of_text ''42'' 42"
    by (elim exE conjE)
  have "rows (projr (filter_emails sample_frame)) \<noteq> [] \<and>
        cell_of (hd (rows (projr (filter_emails sample_frame)))) ''user_id'' = StrV ''42''"
    by code_simp
  with dv have ne: "rows dv \<noteq> []" and e: "cell_of (hd (rows dv)) ''user_id'' = StrV ''42''"
    by simp_all
  from l ne have "\<forall>s. cell_of (hd (rows dv)) ''user_id'' = StrV s \<longrightarrow>
      (\<forall>v. cell_of (hd (rows df')) ''user_id'' = IntV v \<longleftrightarrow> spec_int_of_text s v)"
    by (cases "rows dv"; cases "rows df'") simp_all
  with e have "cell_of (hd (rows df')) ''user_id'' = IntV 42 \<longleftrightarrow> spec_int_of_text ''42'' 42"
    by (elim allE [of _ "''42''"] impE) (assumption, elim conjE allE [of _ 42])
  with s1 have d: "cell_of (hd (rows df')) ''user_id'' = IntV 42"
    by (rule_tac iffD2)
  from c1 c2 dv t e d show ?thesis by (intro conjI exI [of _ dv] exI [of _ df'])
qed

text \<open>
  The claim as the specification states it fails: a run over a file whose one record has
  \<^verbatim>\<open>abc\<close> for \<open>user_id\<close> ends without an error, and the record is written with a null
  \<open>user_id\<close>.
\<close>

theorem user_id_abc_counterexample:
  "fst (etl_pipeline ''data.csv'' (Some ''jdbc:postgresql://db:5432/etl'') (Some ''users'')
          (Some ''etl'') ''s3cret''
          (sample_world\<lparr>csv_files := [''data.csv'' \<mapsto>
             [[''user_id'', ''name'', ''email'', ''signup_date''],
              [''abc'', ''Ann'', ''ann@example.com'', ''1700000000'']]]\<rparr>)) = None \<and>
   tables (db (snd (etl_pipeline ''data.csv'' (Some ''jdbc:postgresql://db:5432/etl'')
          (Some ''users'') (Some ''etl'') ''s3cret''
          (sample_world\<lparr>csv_files := [''data.csv'' \<mapsto>
             [[''user_id'', ''name'', ''email'', ''signup_date''],
              [''abc'', ''Ann'', ''ann@example.com'', ''1700000000'']]]\<rparr>)))) ''users'' =
     Some [[(''user_id'', Null), (''name'', StrV ''Ann''), (''email'', StrV ''ann@example.com''),
            (''signup_date'', DateV 2023 11 14), (''domain'', StrV ''example.com'')]]"
  by code_simp

section \<open>Extraction\<close>

lemma length_make_safe_header: "length (make_safe_header names) = length names"
  by (simp add: make_safe_header_def)

lemma nth_make_safe_header:
  assumes "j < length names"
  shows "make_safe_header names ! j =
           (if names ! j = [] then ''_c'' @ show_nat j
            else if 2 \<le> count_list (map lower names) (lower (names ! j))
                 then names ! j @ show_nat j
                 else names ! j)"
proof -
  have "make_safe_header names ! j = safe_name names (names ! j, j)"
    using assms by (simp add: make_safe_header_def)
  then show ?thesis
    by (simp only: safe_name_def prod.case duplicated_def)
qed

lemma length_fit: "length (fit n vals) = n"
  by (simp add: fit_def)

lemma nth_fit:
  assumes "j < n"
  shows "fit n vals ! j = (if j < length vals then vals ! j else [])"
  using assms by (simp add: fit_def nth_append)

lemma read_csv_row:
  assumes "j < length names"
  shows "map fst (zip (make_safe_header names) (map text_cell (fit (length names) vals))) =
           make_safe_header names"
    and "snd (zip (make_safe_header names) (map text_cell (fit (length names) vals)) ! j) =
           (if j < length vals \<and> vals ! j \<noteq> [] then StrV (vals ! j) else Null)"
proof -
  have len: "length (map text_cell (fit (length names) vals)) = length (make_safe_header names)"
    by (simp add: length_fit length_make_safe_header)
  show "map fst (zip (make_safe_header names) (map text_cell (fit (length names) vals))) =
          make_safe_header names"
    using len by (simp only: map_fst_zip)
  have "snd (zip (make_safe_header names) (map text_cell (fit (length names) vals)) ! j) =
          text_cell (fit (length names) vals ! j)"
    using assms by (simp add: length_fit length_make_safe_header)
  also have "\<dots> = (if j < length vals \<and> vals ! j \<noteq> [] then StrV (vals ! j) else Null)"
    using assms by (simp add: nth_fit text_cell_def)
  finally show "snd (zip (make_safe_header names) (map text_cell (fit (length names) vals)) ! j) =
           (if j < length vals \<and> vals ! j \<noteq> [] then StrV (vals ! j) else Null)" .
qed

lemma columns_read_csv:
  "columns (read_csv tz []) = []"
  "columns (read_csv tz (names # body)) = make_safe_header names"
  by (simp_all add: read_csv_def)

text \<open>
  Claim C2, as the code has it. Extraction raises if and only if the path names no
  readable file or two names of the header, made safe, are the same with letter case
  ignored; then the exception of the read is logged as an error and raised again. The
  header is not compared with any expected names: whatever the first record holds names
  the columns, an empty name replaced by \<^verbatim>\<open>_c\<close> and its index and a repeated name
  followed by its index, and a file with no record gives a frame with no column. When
  extraction succeeds it logs one line, and every cell of the frame is the text of its
  field in the file, or null where the field is empty or missing: no value is read as
  a number or a date.
\<close>

theorem extract_data_raises_iff:
  "((\<exists>e. fst (extract_data input_file w) = Inl e) \<longleftrightarrow>
      csv_files w input_file = None \<or>
      (\<exists>names body. csv_files w input_file = Some (names # body) \<and>
         \<not> distinct (map lower (make_safe_header names)))) \<and>
   (csv_files w input_file = None \<longrightarrow>
      extract_data input_file w =
        (Inl (AnalysisException (PathDoesNotExist input_file)),
         w\<lparr>logged := logged w @
              [(ERROR, ExtractFailed input_file
                         (AnalysisException (PathDoesNotExist input_file)))]\<rparr>)) \<and>
   (\<forall>names body. csv_files w input_file = Some (names # body) \<and>
        \<not> distinct (map lower (make_safe_header names)) \<longrightarrow>
      extract_data input_file w =
        (Inl (AnalysisException DuplicateColumns),
         w\<lparr>logged := logged w @
              [(ERROR, ExtractFailed input_file (AnalysisException DuplicateColumns))]\<rparr>)) \<and>
   (csv_files w input_file = Some [] \<longrightarrow>
      (\<exists>df. extract_data input_file w =
               (Inr df, w\<lparr>logged := logged w @ [(INFO, ExtractOk input_file)]\<rparr>) \<and>
            columns df = [] \<and> rows df = [])) \<and>
   (\<forall>names body. csv_files w input_file = Some (names # body) \<and>
        distinct (map lower (make_safe_header names)) \<longrightarrow>
      (\<exists>df. extract_data input_file w =
               (Inr df, w\<lparr>logged := logged w @ [(INFO, ExtractOk input_file)]\<rparr>) \<and>
            time_zone df = jvm_time_zone w \<and>
            length (columns df) = length names \<and>
            (\<forall>j<length names.
               columns df ! j =
                 (if names ! j = [] then ''_c'' @ show_nat j
                  else if 2 \<le> count_list (map lower names) (lower (names ! j))
                       then names ! j @ show_nat j
                       else names ! j)) \<and>
            length (rows df) = length body \<and>
            (\<forall>i<length body.
               map fst (rows df ! i) = columns df \<and>
               (\<forall>j<length names.
                  snd (rows df ! i ! j) =
                    (if j < length (body ! i) \<and> body ! i ! j \<noteq> [] then StrV (body ! i ! j)
                     else Null)))))"
proof (intro conjI allI impI)
  show "(\<exists>e. fst (extract_data input_file w) = Inl e) \<longleftrightarrow>
      csv_files w input_file = None \<or>
      (\<exists>names body. csv_files w input_file = Some (names # body) \<and>
         \<not> distinct (map lower (make_safe_header names)))"
  proof (cases "csv_files w input_file")
    case None
    then show ?thesis by (simp add: extract_data_None)
  next
    case (Some records)
    show ?thesis
    proof (cases records)
      case Nil
      with Some show ?thesis by (simp add: extract_data_def columns_read_csv)
    next
      case (Cons names body)
      with Some show ?thesis by (simp add: extract_data_def columns_read_csv)
    qed
  qed
next
  assume "csv_files w input_file = None"
  then show "extract_data input_file w =
        (Inl (AnalysisException (PathDoesNotExist input_file)),
         w\<lparr>logged := logged w @
              [(ERROR, ExtractFailed input_file
                         (AnalysisException (PathDoesNotExist input_file)))]\<rparr>)"
    by (simp add: extract_data_None logging_error_def)
next
  fix names body
  assume "csv_files w input_file = Some (names # body) \<and>
        \<not> distinct (map lower (make_safe_header names))"
  then show "extract_data input_file w =
        (Inl (AnalysisException DuplicateColumns),
         w\<lparr>logged := logged w @
              [(ERROR, ExtractFailed input_file (AnalysisException DuplicateColumns))]\<rparr>)"
    by (simp add: extract_data_duplicates columns_read_csv logging_error_def)
next
  assume "csv_files w input_file = Some []"
  then have "extract_data input_file w =
      (Inr (read_csv (jvm_time_zone w) []), w\<lparr>logged := logged w @ [(INFO, ExtractOk input_file)]\<rparr>)"
    by (simp add: extract_data_Some columns_read_csv logging_info_def)
  then show "\<exists>df. extract_data input_file w =
               (Inr df, w\<lparr>logged := logged w @ [(INFO, ExtractOk input_file)]\<rparr>) \<and>
            columns df = [] \<and> rows df = []"
    by (intro exI [of _ "read_csv (jvm_time_zone w) []"]) (simp add: read_csv_def)
next
  fix names body
  assume a: "csv_files w input_file = Some (names # body) \<and>
        distinct (map lower (make_safe_header names))"
  then have f: "csv_files w input_file = Some (names # body)"
    and dc: "distinct (map lower (make_safe_header names))"
    by simp_all
  define df where "df = read_csv (jvm_time_zone w) (names # body)"
  have 1: "extract_data input_file w =
      (Inr df, w\<lparr>logged := logged w @ [(INFO, ExtractOk input_file)]\<rparr>)"
    using f dc by (simp add: extract_data_Some columns_read_csv logging_info_def df_def)
  have cols: "columns df = make_safe_header names"
    and rws: "rows df = map (\<lambda>vals. zip (make_safe_header names)
                                (map text_cell (fit (length names) vals))) body"
    and 2: "time_zone df = jvm_time_zone w"
    by (simp_all add: df_def read_csv_def)
  have 3: "length (columns df) = length names"
    by (simp add: cols length_make_safe_header)
  have 4: "\<forall>j<length names.
               columns df ! j =
                 (if names ! j = [] then ''_c'' @ show_nat j
                  else if 2 \<le> count_list (map lower names) (lower (names ! j))
                       then names ! j @ show_nat j
                       else names ! j)"
  proof (intro allI impI)
    fix j assume "j < length names"
    from nth_make_safe_header [OF this]
    show "columns df ! j =
                 (if names ! j = [] then ''_c'' @ show_nat j
                  else if 2 \<le> count_list (map lower names) (lower (names ! j))
                       then names ! j @ show_nat j
                       else names ! j)"
      by (simp only: cols)
  qed
  have 5: "length (rows df) = length body"
    by (simp add: rws)
  have 6: "\<forall>i<length body.
               map fst (rows df ! i) = columns df \<and>
               (\<forall>j<length names.
                  snd (rows df ! i ! j) =
                    (if j < length (body ! i) \<and> body ! i ! j \<noteq> [] then StrV (body ! i ! j)
                     else Null))"
  proof (intro allI impI conjI)
    fix i assume i: "i < length body"
    then have r: "rows df ! i = zip (make_safe_header names)
                                (map text_cell (fit (length names) (body ! i)))"
      by (simp add: rws)
    show "map fst (rows df ! i) = columns df"
    proof (cases names)
      case Nil
      then show ?thesis by (simp add: r cols make_safe_header_def)
    next
      case (Cons n ns)
      then have "0 < length names" by simp
      from read_csv_row(1) [OF this] show ?thesis by (simp only: r cols)
    qed
    fix j assume "j < length names"
    from read_csv_row(2) [OF this]
    show "snd (rows df ! i ! j) =
            (if j < length (body ! i) \<and> body ! i ! j \<noteq> [] then StrV (body ! i ! j) else Null)"
      by (simp only: r)
  qed
  from 1 2 3 4 5 6
  show "\<exists>df. extract_data input_file w =
               (Inr df, w\<lparr>logged := logged w @ [(INFO, ExtractOk input_file)]\<rparr>) \<and>
            time_zone df = jvm_time_zone w \<and>
            length (columns df) = length names \<and>
            (\<forall>j<length names.
               columns df ! j =
                 (if names ! j = [] then ''_c'' @ show_nat j
                  else if 2 \<le> count_list (map lower names) (lower (names ! j))
                       then names ! j @ show_nat j
                       else names ! j)) \<and>
            length (rows df) = length body \<and>
            (\<forall>i<length body.
               map fst (rows df ! i) = columns df \<and>
               (\<forall>j<length names.
                  snd (rows df ! i ! j) =
                    (if j < length (body ! i) \<and> body ! i ! j \<noteq> [] then StrV (body ! i ! j)
                     else Null)))"
    by (intro exI [of _ df] conjI)
qed

theorem extract_data_raises_iff_witness:
  "csv_files sample_world ''data.csv'' = Some sample_file \<and>
   (\<exists>df. extract_data ''data.csv'' sample_world =
            (Inr df, sample_world\<lparr>logged := logged sample_world @ [(INFO, ExtractOk ''data.csv'')]\<rparr>) \<and>
         length (columns df) = 4 \<and> columns df ! 2 = ''email'' \<and> length (rows df) = 5 \<and>
         snd (rows df ! 0 ! 2) = StrV ''alice@sub.example.com'') \<and>
   csv_files sample_world ''none.csv'' = None \<and>
   (\<exists>e. fst (extract_data ''none.csv'' sample_world) = Inl e) \<and>
   \<not> distinct (map lower (make_safe_header [''a'', ''a'', ''a0''])) \<and>
   fst (extract_data ''data.csv''
          (sample_world\<lparr>csv_files := [''data.csv'' \<mapsto> [[''a'', ''a'', ''a0'']]]\<rparr>)) =
     Inl (AnalysisException DuplicateColumns)"
proof -
  define names where "names = [''user_id'', ''name'', ''email'', ''signup_date'']"
  define body where "body = tl sample_file"
  have sf: "sample_file = names # body"
    by (simp add: names_def body_def sample_file_def)
  have f0: "csv_files sample_world ''data.csv'' = Some sample_file"
    and n: "csv_files sample_world ''none.csv'' = None"
    by (simp_all add: sample_world_def)
  from f0 have f: "csv_files sample_world ''data.csv'' = Some (names # body)"
    by (simp only: sf)
  have lb: "length body = 5" and ln: "length names = 4"
    by (simp_all add: body_def names_def sample_file_def)
  have dc: "distinct (map lower (make_safe_header names))"
    unfolding names_def by code_simp
  from extract_data_raises_iff [of "''data.csv''" sample_world, THEN conjunct2, THEN conjunct2,
      THEN conjunct2, THEN conjunct2, THEN spec, THEN spec, THEN mp, OF conjI [OF f dc]]
  obtain df where ex: "extract_data ''data.csv'' sample_world =
            (Inr df, sample_world\<lparr>logged := logged sample_world @ [(INFO, ExtractOk ''data.csv'')]\<rparr>)"
    and lc: "length (columns df) = length names"
    and cn: "\<forall>j<length names.
               columns df ! j =
                 (if names ! j = [] then ''_c'' @ show_nat j
                  else if 2 \<le> count_list (map lower names) (lower (names ! j))
                       then names ! j @ show_nat j
                       else names ! j)"
    and lr: "length (rows df) = length body"
    and cells: "\<forall>i<length body.
               map fst (rows df ! i) = columns df \<and>
               (\<forall>j<length names.
                  snd (rows df ! i ! j) =
                    (if j < length (body ! i) \<and> body ! i ! j \<noteq> [] then StrV (body ! i ! j)
                     else Null))"
    by (elim exE conjE)
  have "2 < length names" by (simp add: ln)
  from cn [rule_format, OF this]
  have c2: "columns df ! 2 = ''email''"
    by (simp add: names_def lower_def lower_char_def)
  have "0 < length body" by (simp add: lb)
  from cells [rule_format, OF this, THEN conjunct2, rule_format, OF \<open>2 < length names\<close>]
  have cell: "snd (rows df ! 0 ! 2) = StrV ''alice@sub.example.com''"
    by (simp add: body_def sample_file_def)
  have 1: "\<exists>df. extract_data ''data.csv'' sample_world =
            (Inr df, sample_world\<lparr>logged := logged sample_world @ [(INFO, ExtractOk ''data.csv'')]\<rparr>) \<and>
         length (columns df) = 4 \<and> columns df ! 2 = ''email'' \<and> length (rows df) = 5 \<and>
         snd (rows df ! 0 ! 2) = StrV ''alice@sub.example.com''"
    using ex lc [unfolded ln] c2 lr [unfolded lb] cell by (intro exI [of _ df] conjI)
  have 2: "\<exists>e. fst (extract_data ''none.csv'' sample_world) = Inl e"
    by (rule extract_data_raises_iff [of "''none.csv''" sample_world, THEN conjunct1, THEN iffD2,
          OF disjI1 [OF n]])
  have 3: "\<not> distinct (map lower (make_safe_header [''a'', ''a'', ''a0''])) \<and>
      fst (extract_data ''data.csv''
          (sample_world\<lparr>csv_files := [''data.csv'' \<mapsto> [[''a'', ''a'', ''a0'']]]\<rparr>)) =
        Inl (AnalysisException DuplicateColumns)"
    by code_simp
  from f0 1 n 2 3 show ?thesis by (intro conjI) (simp_all only: simp_thms)
qed

text \<open>
  The claim as the specification states it fails: a file whose header lacks two of the
  four expected columns and names the first differently is extracted without an error,
  and so is a file with no record at all.
\<close>

theorem header_mismatch_counterexample:
  "fst (extract_data ''data.csv''
          (sample_world\<lparr>csv_files := [''data.csv'' \<mapsto> [[''id'', ''name''], [''1'', ''Ann'']]]\<rparr>)) =
     Inr \<lparr>time_zone = 0, columns = [''id'', ''name''],
          rows = [[(''id'', StrV ''1''), (''name'', StrV ''Ann'')]]\<rparr> \<and>
   fst (extract_data ''data.csv'' (sample_world\<lparr>csv_files := [''data.csv'' \<mapsto> []]\<rparr>)) =
     Inr \<lparr>time_zone = 0, columns = [], rows = []\<rparr>"
  by code_simp

section \<open>Runs of the pipeline\<close>

text \<open>
  Claim C6. When the input path names no readable file, \<open>etl_pipeline\<close> ends with the
  exception of the read; the destination is as it was, and the only line the run has
  logged is the error of the extraction, so neither the transformation nor the load,
  which logs a line whenever it is called, has run.
\<close>

theorem unreadable_input_writes_nothing:
  assumes "csv_files w input_file = None"
  shows "\<exists>w'. etl_pipeline input_file jdbc_url table_name username password w =
                 (Some (AnalysisException (PathDoesNotExist input_file)), w') \<and>
              db w' = db w \<and>
              logged w' = logged w @
                [(ERROR, ExtractFailed input_file (AnalysisException (PathDoesNotExist input_file)))]"
proof -
  from assms have "csv_files (w\<lparr>session_active := True\<rparr>) input_file = None" by simp
  from extract_data_None [OF this]
  show ?thesis by (simp add: etl_pipeline_def logging_error_def)
qed

theorem unreadable_input_writes_nothing_witness:
  "csv_files (sample_world\<lparr>csv_files := Map.empty\<rparr>) ''data.csv'' = None \<and>
   (\<exists>w'. etl_pipeline ''data.csv'' (JDBC_URL sample_env) (POSTGRES_TABLE sample_env)
            (POSTGRES_USER sample_env) ''s3cret'' (sample_world\<lparr>csv_files := Map.empty\<rparr>) =
            (Some (AnalysisException (PathDoesNotExist ''data.csv'')), w') \<and>
         db w' = sample_db \<and>
         logged w' = [(ERROR, ExtractFailed ''data.csv''
                                (AnalysisException (PathDoesNotExist ''data.csv'')))])"
proof -
  have n: "csv_files (sample_world\<lparr>csv_files := Map.empty\<rparr>) ''data.csv'' = None" by simp
  from unreadable_input_writes_nothing [OF n, of "JDBC_URL sample_env" "POSTGRES_TABLE sample_env"
      "POSTGRES_USER sample_env" "''s3cret''"]
  show ?thesis by (simp add: sample_world_def)
qed

lemma load_appends:
  assumes "jdbc_accepts (db w) jdbc_url (Some t) username password"
  shows "\<exists>w'. load_data_to_postgresql df jdbc_url (Some t) username password w = (None, w') \<and>
              tables (db w') t = Some (existing (db w) t @ rows df) \<and>
              (\<forall>t'. t' \<noteq> t \<longrightarrow> tables (db w') t' = tables (db w) t')"
  using assms by (simp add: load_accepts logging_info_def tables_append_rows)

lemma run_twice:
  assumes "etl_pipeline p jdbc_url (Some t) username password w = (None, w1)"
  shows "\<exists>new w2. etl_pipeline p jdbc_url (Some t) username password w1 = (None, w2) \<and>
           tables (db w1) t = Some (existing (db w) t @ new) \<and>
           tables (db w2) t = Some (existing (db w) t @ new @ new)"
proof -
  from etl_pipeline_succeeded [OF assms] obtain records d
    where f: "csv_files w p = Some records"
      and dc: "distinct (map lower (columns (read_csv (jvm_time_zone w) records)))"
      and c: "transform_chain (read_csv (jvm_time_zone w) records) = Inr d"
      and a: "jdbc_accepts (db w) jdbc_url (Some t) username password"
      and w1: "w1 = w\<lparr>session_active := False,
                  db := append_rows t (rows d) (db w),
                  logged := logged w @ [(INFO, ExtractOk p), (INFO, LoadOk (Some t))],
                  printed := printed w @ [Completed]\<rparr>"
    by auto
  define v1 where "v1 = logging_info (ExtractOk p) (w1\<lparr>session_active := True\<rparr>)"
  have f1: "csv_files (w1\<lparr>session_active := True\<rparr>) p = Some records"
    by (simp add: w1 f)
  have ex: "extract_data p (w1\<lparr>session_active := True\<rparr>) =
              (Inr (read_csv (jvm_time_zone w) records), v1)"
    using extract_data_Some [OF f1] dc by (simp add: v1_def w1)
  have td: "transform_data (read_csv (jvm_time_zone w) records) v1 = (Inr d, v1)"
    using c by (simp add: transform_data_Inr)
  have dbv: "db v1 = append_rows t (rows d) (db w)"
    by (simp add: v1_def w1 logging_info_def)
  have a1: "jdbc_accepts (db v1) jdbc_url (Some t) username password"
    using a by (simp add: dbv jdbc_accepts_append_rows)
  define w2 where "w2 = (print_line Completed
      (logging_info (LoadOk (Some t)) (v1\<lparr>db := append_rows t (rows d) (db v1)\<rparr>)))
      \<lparr>session_active := False\<rparr>"
  have run2: "etl_pipeline p jdbc_url (Some t) username password w1 = (None, w2)"
    by (simp add: etl_pipeline_def ex td load_accepts [OF a1] w2_def)
  have t1: "tables (db w1) t = Some (existing (db w) t @ rows d)"
    by (simp add: w1 tables_append_rows)
  have "existing (append_rows t (rows d) (db w)) t = existing (db w) t @ rows d"
    by (simp add: existing_def tables_append_rows)
  then have t2: "tables (db w2) t = Some (existing (db w) t @ rows d @ rows d)"
    by (simp add: w2_def print_line_def logging_info_def dbv tables_append_rows)
  from run2 t1 t2 show ?thesis by blast
qed

text \<open>
  Claim C7. A load that connects adds the rows of the frame after the rows the table
  already holds, which stay as they were, and leaves every other table alone; it looks
  for no duplicate. So a run that succeeds can be repeated on the same input, and then
  the table holds the rows it had followed by the new rows twice: on the sample file of
  five records, two of them malformed, three rows after the first run and six after the
  second.
\<close>

theorem load_appends_rows:
  "(jdbc_accepts (db w) jdbc_url (Some t) username password \<longrightarrow>
      (\<exists>w'. load_data_to_postgresql df jdbc_url (Some t) username password w = (None, w') \<and>
            tables (db w') t = Some (existing (db w) t @ rows df) \<and>
            (\<forall>t'. t' \<noteq> t \<longrightarrow> tables (db w') t' = tables (db w) t'))) \<and>
   (etl_pipeline input_file jdbc_url (Some t) username password wa = (None, wb) \<longrightarrow>
      (\<exists>new w2. etl_pipeline input_file jdbc_url (Some t) username password wb = (None, w2) \<and>
          tables (db wb) t = Some (existing (db wa) t @ new) \<and>
          tables (db w2) t = Some (existing (db wa) t @ new @ new)))"
  using load_appends run_twice by blast

theorem load_appends_rows_witness:
  "\<exists>w1 w2 new.
     etl_pipeline ''data.csv'' (Some ''jdbc:postgresql://db:5432/etl'') (Some ''users'')
       (Some ''etl'') ''s3cret'' sample_world = (None, w1) \<and>
     etl_pipeline ''data.csv'' (Some ''jdbc:postgresql://db:5432/etl'') (Some ''users'')
       (Some ''etl'') ''s3cret'' w1 = (None, w2) \<and>
     tables (db w1) ''users'' = Some new \<and> length new = 3 \<and>
     tables (db w2) ''users'' = Some (new @ new) \<and> length (new @ new) = 6"
proof -
  define w1 where "w1 = snd (etl_pipeline ''data.csv'' (Some ''jdbc:postgresql://db:5432/etl'')
       (Some ''users'') (Some ''etl'') ''s3cret'' sample_world)"
  have "fst (etl_pipeline ''data.csv'' (Some ''jdbc:postgresql://db:5432/etl'')
       (Some ''users'') (Some ''etl'') ''s3cret'' sample_world) = None"
    by code_simp
  then have r1: "etl_pipeline ''data.csv'' (Some ''jdbc:postgresql://db:5432/etl'')
       (Some ''users'') (Some ''etl'') ''s3cret'' sample_world = (None, w1)"
    by (simp add: w1_def prod_eq_iff)
  have e: "existing (db sample_world) ''users'' = []"
    by (simp add: existing_def sample_world_def sample_db_def)
  have "etl_pipeline ''data.csv'' (Some ''jdbc:postgresql://db:5432/etl'') (Some ''users'')
          (Some ''etl'') ''s3cret'' sample_world = (None, w1) \<longrightarrow>
        (\<exists>new w2. etl_pipeline ''data.csv'' (Some ''jdbc:postgresql://db:5432/etl'')
            (Some ''users'') (Some ''etl'') ''s3cret'' w1 = (None, w2) \<and>
          tables (db w1) ''users'' = Some (existing (db sample_world) ''users'' @ new) \<and>
          tables (db w2) ''users'' = Some (existing (db sample_world) ''users'' @ new @ new))"
    using load_appends_rows [where input_file = "''data.csv''"
        and jdbc_url = "Some ''jdbc:postgresql://db:5432/etl''" and t = "''users''"
        and username = "Some ''etl''" and password = "''s3cret''" and wa = sample_world
        and wb = w1 and w = sample_world and df = sample_frame]
    by (rule conjunct2)
  from this r1 have "\<exists>new w2. etl_pipeline ''data.csv'' (Some ''jdbc:postgresql://db:5432/etl'')
            (Some ''users'') (Some ''etl'') ''s3cret'' w1 = (None, w2) \<and>
          tables (db w1) ''users'' = Some (existing (db sample_world) ''users'' @ new) \<and>
          tables (db w2) ''users'' = Some (existing (db sample_world) ''users'' @ new @ new)"
    by (rule mp)
  then obtain new w2 where r2: "etl_pipeline ''data.csv'' (Some ''jdbc:postgresql://db:5432/etl'')
       (Some ''users'') (Some ''etl'') ''s3cret'' w1 = (None, w2)"
    and t1: "tables (db w1) ''users'' = Some new"
    and t2: "tables (db w2) ''users'' = Some (new @ new)"
    unfolding e append_Nil by (elim exE conjE)
  have "map_option length (tables (db (snd (etl_pipeline ''data.csv''
       (Some ''jdbc:postgresql://db:5432/etl'') (Some ''users'') (Some ''etl'') ''s3cret''
       sample_world))) ''users'') = Some 3"
    by code_simp
  with t1 have l: "length new = 3" by (simp add: w1_def)
  then have l2: "length (new @ new) = 6" by simp
  from r1 r2 t1 t2 l l2 show ?thesis
    by (intro exI [of _ w1] exI [of _ w2] exI [of _ new] conjI)
qed

section \<open>The script as a process\<close>

lemma get_postgres_password_Inr:
  "get_postgres_password secret_path w = (Inr password, w1) \<Longrightarrow> w1 = w"
  by (auto simp: get_postgres_password_def split: option.splits)

text \<open>
  Claim C8, as the code has it. When a stage fails, the stage logs one error line that
  names it, the handler of the script logs one more, \<^verbatim>\<open>ETL process failed\<close> with the same
  exception, and that line is the last of the run; no other error line is logged. The
  script ends there, so the process ends with status 0.
\<close>

theorem failed_run_status:
  assumes "get_postgres_password (SECRET_POSTGRES_PASSWORD_PATH env) w = (Inr password, w1)"
    and "etl_pipeline ''data.csv'' (JDBC_URL env) (POSTGRES_TABLE env) (POSTGRES_USER env)
           password (print_line (Connecting (POSTGRES_TABLE env) (POSTGRES_USER env)) w1) =
           (Some e, w2)"
  shows "\<exists>w' pre m. main env w = (0, w') \<and>
           logged w' = logged w @ pre @ [(ERROR, m), (ERROR, EtlFailed e)] \<and>
           (m = ExtractFailed ''data.csv'' e \<or> m = TransformFailed e \<or> m = LoadFailed e) \<and>
           list_all (\<lambda>x. fst x = INFO) pre"
proof -
  from assms(1) have w1: "w1 = w" by (rule get_postgres_password_Inr)
  from etl_pipeline_failed [OF assms(2)] obtain pre m
    where l: "logged w2 = logged w @ pre @ [(ERROR, m)]"
      and m: "m = ExtractFailed ''data.csv'' e \<or> m = TransformFailed e \<or> m = LoadFailed e"
      and pre: "list_all (\<lambda>x. fst x = INFO) pre"
    by (auto simp: w1 print_line_def)
  have r: "main env w = (0, logging_error (EtlFailed e) w2)"
    using assms by (simp add: main_def)
  have "logged (logging_error (EtlFailed e) w2) =
          logged w @ pre @ [(ERROR, m), (ERROR, EtlFailed e)]"
    by (simp add: logging_error_def l)
  with r m pre show ?thesis
    by (intro exI [of _ "logging_error (EtlFailed e) w2"] exI [of _ pre] exI [of _ m] conjI)
qed

theorem failed_run_status_witness:
  "get_postgres_password (SECRET_POSTGRES_PASSWORD_PATH sample_env)
     (sample_world\<lparr>csv_files := Map.empty\<rparr>) =
     (Inr ''s3cret'', sample_world\<lparr>csv_files := Map.empty\<rparr>) \<and>
   fst (etl_pipeline ''data.csv'' (JDBC_URL sample_env) (POSTGRES_TABLE sample_env)
          (POSTGRES_USER sample_env) ''s3cret''
          (print_line (Connecting (POSTGRES_TABLE sample_env) (POSTGRES_USER sample_env))
             (sample_world\<lparr>csv_files := Map.empty\<rparr>))) =
     Some (AnalysisException (PathDoesNotExist ''data.csv'')) \<and>
   (\<exists>w'. main sample_env (sample_world\<lparr>csv_files := Map.empty\<rparr>) = (0, w') \<and>
         logged w' =
           [(ERROR, ExtractFailed ''data.csv'' (AnalysisException (PathDoesNotExist ''data.csv''))),
            (ERROR, EtlFailed (AnalysisException (PathDoesNotExist ''data.csv'')))])"
proof -
  define w where "w = sample_world\<lparr>csv_files := Map.empty\<rparr>"
  define v where "v = print_line (Connecting (POSTGRES_TABLE sample_env) (POSTGRES_USER sample_env)) w"
  define x where "x = AnalysisException (PathDoesNotExist ''data.csv'')"
  have g: "get_postgres_password (SECRET_POSTGRES_PASSWORD_PATH sample_env) w = (Inr ''s3cret'', w)"
    by (simp add: get_postgres_password_def sample_env_def sample_world_def w_def py_strip_def
        py_space_def)
  have "csv_files (v\<lparr>session_active := True\<rparr>) ''data.csv'' = None"
    by (simp add: v_def w_def print_line_def)
  from extract_data_None [OF this]
  have p: "etl_pipeline ''data.csv'' (JDBC_URL sample_env) (POSTGRES_TABLE sample_env)
          (POSTGRES_USER sample_env) ''s3cret'' v =
          (Some x, logging_error (ExtractFailed ''data.csv'' x) (v\<lparr>session_active := True\<rparr>))"
    by (simp add: etl_pipeline_def x_def)
  from failed_run_status [OF g p [unfolded v_def]] obtain w' pre m
    where r: "main sample_env w = (0, w')"
      and l: "logged w' = logged w @ pre @ [(ERROR, m), (ERROR, EtlFailed x)]"
    by blast
  have "logged (snd (main sample_env w)) =
          [(ERROR, ExtractFailed ''data.csv'' x), (ERROR, EtlFailed x)]"
    using g p by (simp add: main_def v_def logging_error_def print_line_def w_def
        sample_world_def)
  with r have l': "logged w' = [(ERROR, ExtractFailed ''data.csv'' x), (ERROR, EtlFailed x)]"
    by simp
  from p have p': "fst (etl_pipeline ''data.csv'' (JDBC_URL sample_env) (POSTGRES_TABLE sample_env)
          (POSTGRES_USER sample_env) ''s3cret'' v) = Some x"
    by simp
  have "\<exists>w'. main sample_env w = (0, w') \<and>
          logged w' = [(ERROR, ExtractFailed ''data.csv'' x), (ERROR, EtlFailed x)]"
    using r l' by (intro exI [of _ w'] conjI)
  with g p' show ?thesis
    unfolding w_def v_def x_def by (intro conjI)
qed

text \<open>
  The claim as the specification states it fails: with no input file the extraction
  fails, and the process ends with status 0.
\<close>

theorem failed_run_status_counterexample:
  "fst (etl_pipeline ''data.csv'' (JDBC_URL sample_env) (POSTGRES_TABLE sample_env)
          (POSTGRES_USER sample_env) ''s3cret''
          (print_line (Connecting (POSTGRES_TABLE sample_env) (POSTGRES_USER sample_env))
             (sample_world\<lparr>csv_files := Map.empty\<rparr>))) =
     Some (AnalysisException (PathDoesNotExist ''data.csv'')) \<and>
   fst (main sample_env (sample_world\<lparr>csv_files := Map.empty\<rparr>)) = 0"
  by code_simp

text \<open>
  Claim C9 against the code. A run over the sample file ends with the session stopped;
  the same run with no input file fails in the extraction and ends with the session
  still active: \<^verbatim>\<open>spark.stop()\<close> stands after the three stages, with no \<^verbatim>\<open>finally\<close>
  around them, and the exception leaves \<open>etl_pipeline\<close> before it.
\<close>

theorem failed_run_keeps_session:
  "fst (etl_pipeline ''data.csv'' (JDBC_URL sample_env) (POSTGRES_TABLE sample_env)
          (POSTGRES_USER sample_env) ''s3cret'' sample_world) = None \<and>
   session_active (snd (etl_pipeline ''data.csv'' (JDBC_URL sample_env) (POSTGRES_TABLE sample_env)
          (POSTGRES_USER sample_env) ''s3cret'' sample_world)) = False \<and>
   fst (etl_pipeline ''data.csv'' (JDBC_URL sample_env) (POSTGRES_TABLE sample_env)
          (POSTGRES_USER sample_env) ''s3cret'' (sample_world\<lparr>csv_files := Map.empty\<rparr>)) =
     Some (AnalysisException (PathDoesNotExist ''data.csv'')) \<and>
   session_active (snd (etl_pipeline ''data.csv'' (JDBC_URL sample_env) (POSTGRES_TABLE sample_env)
          (POSTGRES_USER sample_env) ''s3cret'' (sample_world\<lparr>csv_files := Map.empty\<rparr>))) = True \<and>
   session_active (snd (main sample_env (sample_world\<lparr>csv_files := Map.empty\<rparr>))) = True"
  by code_simp


end
